theory Spec2Isabelle
  imports Main "HOL-Library.Sublist"
begin

section \<open>Strings of the interpreter\<close>

text \<open>
  A Python \<^verbatim>\<open>str\<close> is a sequence of Unicode code points, and \<^verbatim>\<open>len\<close> counts code
  points. A code point is a natural number here; \<open>str\<close> turns an ASCII literal into such a
  sequence.
\<close>

type_synonym pystr = "nat list"

definition str :: "string \<Rightarrow> pystr" where
  "str s = map of_char s"

definition is_ascii :: "pystr \<Rightarrow> bool" where
  "is_ascii s = list_all (\<lambda>c. c < 128) s"

definition in_ranges :: "nat \<Rightarrow> (nat \<times> nat) list \<Rightarrow> bool" where
  "in_ranges c rs = list_ex (\<lambda>(lo, hi). lo \<le> c \<and> c \<le> hi) rs"

subsection \<open>Character classes\<close>

text \<open>
  \<^verbatim>\<open>str.isspace\<close>, \<^verbatim>\<open>str.strip()\<close> and \<^verbatim>\<open>str.split()\<close> use the interpreter's
  whitespace table: the code points of bidirectional type WS, B or S and of category Zs.
\<close>

definition py_isspace_cp :: "nat \<Rightarrow> bool" where
  "py_isspace_cp c = in_ranges c
     [(9, 13), (28, 32), (133, 133), (160, 160), (5760, 5760), (8192, 8202),
      (8232, 8233), (8239, 8239), (8287, 8287), (12288, 12288)]"

text \<open>
  The decimal digits (category Nd), which the regular expression \<^verbatim>\<open>\d\<close> matches and
  \<^verbatim>\<open>int\<close> converts: every block holds the digits 0 to 9 in order (the last one holds five
  such runs). Unicode 14.0, the table of CPython 3.11.
\<close>

definition decimal_ranges :: "(nat \<times> nat) list" where
  "decimal_ranges =
    [(1632, 1641), (1776, 1785), (1984, 1993), (2406, 2415), (2534, 2543), (2662, 2671),
     (2790, 2799), (2918, 2927), (3046, 3055), (3174, 3183), (3302, 3311), (3430, 3439),
     (3558, 3567), (3664, 3673), (3792, 3801), (3872, 3881), (4160, 4169), (4240, 4249),
     (6112, 6121), (6160, 6169), (6470, 6479), (6608, 6617), (6784, 6793), (6800, 6809),
     (6992, 7001), (7088, 7097), (7232, 7241), (7248, 7257), (42528, 42537), (43216, 43225),
     (43264, 43273), (43472, 43481), (43504, 43513), (43600, 43609), (44016, 44025),
     (65296, 65305), (66720, 66729), (68912, 68921), (69734, 69743), (69872, 69881),
     (69942, 69951), (70096, 70105), (70384, 70393), (70736, 70745), (70864, 70873),
     (71248, 71257), (71360, 71369), (71472, 71481), (71904, 71913), (72016, 72025),
     (72784, 72793), (73040, 73049), (73120, 73129), (92768, 92777), (92864, 92873),
     (93008, 93017), (120782, 120831), (123200, 123209), (123632, 123641),
     (125264, 125273), (130032, 130041)]"

definition py_isdecimal_cp :: "nat \<Rightarrow> bool" where
  "py_isdecimal_cp c = ((48 \<le> c \<and> c \<le> 57) \<or> (128 \<le> c \<and> in_ranges c decimal_ranges))"

fun decimal_value_in :: "(nat \<times> nat) list \<Rightarrow> nat \<Rightarrow> nat" where
  "decimal_value_in [] c = 0"
| "decimal_value_in ((lo, hi) # rs) c =
     (if lo \<le> c \<and> c \<le> hi then (c - lo) mod 10 else decimal_value_in rs c)"

definition py_decimal_value :: "nat \<Rightarrow> nat" where
  "py_decimal_value c = (if c < 128 then c - 48 else decimal_value_in decimal_ranges c)"

text \<open>
  \<^verbatim>\<open>str.isdigit\<close> accepts more: the decimal digits and the code points of numeric type
  Digit (superscripts, circled digits and others).
\<close>

definition other_digit_ranges :: "(nat \<times> nat) list" where
  "other_digit_ranges =
    [(178, 179), (185, 185), (4969, 4977), (6618, 6618), (8304, 8304), (8308, 8313),
     (8320, 8329), (9312, 9320), (9332, 9340), (9352, 9360), (9450, 9450), (9461, 9469),
     (9471, 9471), (10102, 10110), (10112, 10120), (10122, 10130), (68160, 68163),
     (69216, 69224), (69714, 69722), (127232, 127242)]"

definition py_isdigit_cp :: "nat \<Rightarrow> bool" where
  "py_isdigit_cp c = (py_isdecimal_cp c \<or> (128 \<le> c \<and> in_ranges c other_digit_ranges))"

definition py_isdigit :: "pystr \<Rightarrow> bool" where
  "py_isdigit s = (s \<noteq> [] \<and> list_all py_isdigit_cp s)"

definition ascii_digit :: "nat \<Rightarrow> bool" where
  "ascii_digit c = (48 \<le> c \<and> c \<le> 57)"

subsection \<open>Case mapping\<close>

text \<open>
  The case mapping of an ASCII code point is written out. The mapping of the other code
  points comes from the interpreter's Unicode database, which is no part of the program:
  it is a parameter. \<open>lower_full U s i\<close> is the lower-case expansion of the code point at
  index \<open>i\<close> of \<open>s\<close> (it depends on the neighbours for the Greek capital sigma only) and
  \<open>title_full U c\<close> the expansion that \<^verbatim>\<open>str.capitalize\<close> gives a first code point \<open>c\<close>.
\<close>

record unicode_case =
  lower_full :: "pystr \<Rightarrow> nat \<Rightarrow> pystr"
  title_full :: "nat \<Rightarrow> pystr"

definition ascii_lower :: "nat \<Rightarrow> nat" where
  "ascii_lower c = (if 65 \<le> c \<and> c \<le> 90 then c + 32 else c)"

definition ascii_upper :: "nat \<Rightarrow> nat" where
  "ascii_upper c = (if 97 \<le> c \<and> c \<le> 122 then c - 32 else c)"

definition lower_at :: "unicode_case \<Rightarrow> pystr \<Rightarrow> nat \<Rightarrow> pystr" where
  "lower_at U s i = (if s ! i < 128 then [ascii_lower (s ! i)] else lower_full U s i)"

definition py_lower :: "unicode_case \<Rightarrow> pystr \<Rightarrow> pystr" where
  "py_lower U s = concat (map (lower_at U s) [0..<length s])"

definition py_capitalize :: "unicode_case \<Rightarrow> pystr \<Rightarrow> pystr" where
  "py_capitalize U s =
     (case s of
        [] \<Rightarrow> []
      | c # _ \<Rightarrow> (if c < 128 then [ascii_upper c] else title_full U c)
                 @ concat (map (lower_at U s) [1..<length s]))"

text \<open>
  A database that leaves every non-ASCII code point alone except U+0149 (LATIN SMALL LETTER
  N PRECEDED BY APOSTROPHE), whose title-case expansion is U+02BC U+004E and whose
  lower case is itself, as SpecialCasing.txt has it.
\<close>

definition ucd_excerpt :: unicode_case where
  "ucd_excerpt = \<lparr>lower_full = (\<lambda>s i. [s ! i]),
                  title_full = (\<lambda>c. if c = 329 then [700, 78] else [c])\<rparr>"

subsection \<open>Searching, splitting and joining\<close>

fun py_startswith :: "pystr \<Rightarrow> pystr \<Rightarrow> bool" where
  "py_startswith s [] = True"
| "py_startswith [] (p # ps) = False"
| "py_startswith (c # cs) (p # ps) = (c = p \<and> py_startswith cs ps)"

text \<open>\<open>py_contains sub s\<close> is \<^verbatim>\<open>sub in s\<close>.\<close>

fun py_contains :: "pystr \<Rightarrow> pystr \<Rightarrow> bool" where
  "py_contains sub [] = (sub = [])"
| "py_contains sub (c # cs) = (py_startswith (c # cs) sub \<or> py_contains sub cs)"

definition py_strip :: "pystr \<Rightarrow> pystr" where
  "py_strip s = rev (dropWhile py_isspace_cp (rev (dropWhile py_isspace_cp s)))"

text \<open>
  \<^verbatim>\<open>s.split()\<close>: skip whitespace, stop at the end, else cut the run of non-whitespace
  and go on behind it.
\<close>

function py_split :: "pystr \<Rightarrow> pystr list" where
  "py_split s =
     (let r = dropWhile py_isspace_cp s
      in if r = [] then []
         else takeWhile (\<lambda>c. \<not> py_isspace_cp c) r
              # py_split (dropWhile (\<lambda>c. \<not> py_isspace_cp c) r))"
  by pat_completeness auto
termination
proof (relation "measure length")
  show "wf (measure length)" by simp
next
  fix s r :: pystr
  assume r: "r = dropWhile py_isspace_cp s" and ne: "r \<noteq> []"
  from ne r have "\<not> py_isspace_cp (hd r)"
    by (metis hd_dropWhile)
  with ne have "length (dropWhile (\<lambda>c. \<not> py_isspace_cp c) r) < length r"
    by (cases r) (auto simp: le_imp_less_Suc length_dropWhile_le)
  moreover have "length r \<le> length s"
    using r by (simp add: length_dropWhile_le)
  ultimately show "(dropWhile (\<lambda>c. \<not> py_isspace_cp c) r, s) \<in> measure length"
    by simp
qed

declare py_split.simps [simp del]

text \<open>\<^verbatim>\<open>s.split(sep)\<close> for a separator of one code point: empty pieces are kept.\<close>

fun py_split_on :: "nat \<Rightarrow> pystr \<Rightarrow> pystr list" where
  "py_split_on sep [] = [[]]"
| "py_split_on sep (c # cs) =
     (if c = sep then [] # py_split_on sep cs
      else (case py_split_on sep cs of
              [] \<Rightarrow> [[c]]
            | w # ws \<Rightarrow> (c # w) # ws))"

fun py_join :: "pystr \<Rightarrow> pystr list \<Rightarrow> pystr" where
  "py_join sep [] = []"
| "py_join sep [x] = x"
| "py_join sep (x # y # ys) = x @ sep @ py_join sep (y # ys)"

section \<open>Fields\<close>

datatype error = ValueError string | KeyError string | IndexError | OverflowError

text \<open>
  \<^verbatim>\<open>Phone(value)\<close>: the constructor raises unless \<^verbatim>\<open>value.isdigit()\<close> holds and the
  length is 10. A field object is its value.
\<close>

definition Phone :: "pystr \<Rightarrow> error + pystr" where
  "Phone v =
     (if \<not> py_isdigit v \<or> length v \<noteq> 10
      then Inl (ValueError ''Phone number must contain exactly 10 digits.'')
      else Inr v)"

text \<open>The phone format as the specification words it: ten ASCII decimal digits.\<close>

definition ten_ascii_digits :: "pystr \<Rightarrow> bool" where
  "ten_ascii_digits s = (length s = 10 \<and> list_all ascii_digit s)"

section \<open>Records\<close>

record Record =
  name :: pystr
  phones :: "pystr list"
  birthday :: "pystr option"

definition new_Record :: "pystr \<Rightarrow> Record" where
  "new_Record n = \<lparr>name = n, phones = [], birthday = None\<rparr>"

fun find_in :: "pystr list \<Rightarrow> pystr \<Rightarrow> pystr option" where
  "find_in [] phone = None"
| "find_in (p # ps) phone = (if p = phone then Some p else find_in ps phone)"

definition find_phone :: "Record \<Rightarrow> pystr \<Rightarrow> pystr option" where
  "find_phone r phone = find_in (phones r) phone"

text \<open>
  The operations below change the record in place and return a flag; the model returns
  the record after the call beside the flag. \<^verbatim>\<open>list.remove\<close> takes out the first element
  equal to the object found, which is that object.
\<close>

definition add_phone :: "Record \<Rightarrow> pystr \<Rightarrow> Record \<times> bool" where
  "add_phone r phone =
     (case find_phone r phone of
        Some _ \<Rightarrow> (r, False)
      | None \<Rightarrow>
          (case Phone phone of
             Inl _ \<Rightarrow> (r, False)
           | Inr p \<Rightarrow> (r\<lparr>phones := phones r @ [p]\<rparr>, True)))"

definition remove_phone :: "Record \<Rightarrow> pystr \<Rightarrow> Record \<times> bool" where
  "remove_phone r phone =
     (case find_phone r phone of
        Some phone_obj \<Rightarrow> (r\<lparr>phones := remove1 phone_obj (phones r)\<rparr>, True)
      | None \<Rightarrow> (r, False))"

definition edit_phone :: "Record \<Rightarrow> pystr \<Rightarrow> pystr \<Rightarrow> Record \<times> bool" where
  "edit_phone r old_phone new_phone =
     (case find_phone r old_phone of
        Some phone_obj \<Rightarrow>
          (let r1 = r\<lparr>phones := remove1 phone_obj (phones r)\<rparr>
           in case Phone new_phone of
                Inl _ \<Rightarrow> (r1, False)
              | Inr p \<Rightarrow> (r1\<lparr>phones := phones r1 @ [p]\<rparr>, True))
      | None \<Rightarrow> (r, False))"

section \<open>Names\<close>

text \<open>\<^verbatim>\<open>normalize_name\<close> and its inner function \<^verbatim>\<open>fix_part\<close>.\<close>

definition fix_part :: "unicode_case \<Rightarrow> pystr \<Rightarrow> pystr" where
  "fix_part U part = py_join (str ''-'') (map (py_capitalize U) (py_split_on 45 part))"

definition normalize_name :: "unicode_case \<Rightarrow> pystr \<Rightarrow> pystr" where
  "normalize_name U raw = py_join (str '' '') (map (fix_part U) (py_split (py_strip raw)))"

text \<open>
  The algorithm as the specification words it: trim the outer whitespace, split on the
  inner whitespace into words, split each word on the hyphen into subparts, capitalize each
  subpart (first letter upper, rest lower), rejoin the subparts with the hyphen and the
  words with single spaces. The scans keep the piece under construction in an accumulator.
\<close>

fun ltrim :: "pystr \<Rightarrow> pystr" where
  "ltrim [] = []"
| "ltrim (c # cs) = (if py_isspace_cp c then ltrim cs else c # cs)"

definition trim :: "pystr \<Rightarrow> pystr" where
  "trim s = rev (ltrim (rev (ltrim s)))"

fun words_from :: "pystr \<Rightarrow> pystr \<Rightarrow> pystr list" where
  "words_from [] cur = (if cur = [] then [] else [cur])"
| "words_from (c # cs) cur =
     (if py_isspace_cp c then (if cur = [] then words_from cs [] else cur # words_from cs [])
      else words_from cs (cur @ [c]))"

fun subparts_from :: "pystr \<Rightarrow> pystr \<Rightarrow> pystr list" where
  "subparts_from [] cur = [cur]"
| "subparts_from (c # cs) cur =
     (if c = 45 then cur # subparts_from cs [] else subparts_from cs (cur @ [c]))"

definition capitalize_spec :: "pystr \<Rightarrow> pystr" where
  "capitalize_spec p = (case p of [] \<Rightarrow> [] | c # cs \<Rightarrow> ascii_upper c # map ascii_lower cs)"

definition rejoin :: "pystr \<Rightarrow> pystr list \<Rightarrow> pystr" where
  "rejoin sep ps = (case ps of [] \<Rightarrow> [] | p # qs \<Rightarrow> foldl (\<lambda>acc x. acc @ sep @ x) p qs)"

definition normalize_name_spec :: "pystr \<Rightarrow> pystr" where
  "normalize_name_spec raw =
     rejoin (str '' '')
       (map (\<lambda>w. rejoin (str ''-'') (map capitalize_spec (subparts_from w [])))
            (words_from (trim raw) []))"

text \<open>
  Auxiliary notions of the proofs: a word is a non-empty string without whitespace;
  \<open>cap_run\<close> capitalizes an ASCII word in one pass, the flag telling whether the next
  code point starts a subpart.
\<close>

definition word :: "pystr \<Rightarrow> bool" where
  "word w = (w \<noteq> [] \<and> list_all (\<lambda>c. \<not> py_isspace_cp c) w)"

fun cap_run :: "bool \<Rightarrow> pystr \<Rightarrow> pystr" where
  "cap_run b [] = []"
| "cap_run b (c # cs) =
     (if c = 45 then 45 # cap_run True cs
      else (if b then ascii_upper c else ascii_lower c) # cap_run False cs)"

definition normalize_ascii :: "pystr \<Rightarrow> pystr" where
  "normalize_ascii x = py_join (str '' '') (map (cap_run True) (py_split x))"

text \<open>
  The algorithm of the specification read on any string: the first code point of a
  subpart gets its upper case, the others their lower case. \<open>up\<close> is \<^verbatim>\<open>str.upper\<close> on a
  code point beyond ASCII, which belongs to the interpreter's database as the other case
  mappings do.
\<close>

definition capitalize_upper :: "(nat \<Rightarrow> pystr) \<Rightarrow> unicode_case \<Rightarrow> pystr \<Rightarrow> pystr" where
  "capitalize_upper up U p =
     (case p of
        [] \<Rightarrow> []
      | c # _ \<Rightarrow> (if c < 128 then [ascii_upper c] else up c)
                 @ concat (map (lower_at U p) [1..<length p]))"

definition normalize_name_upper :: "(nat \<Rightarrow> pystr) \<Rightarrow> unicode_case \<Rightarrow> pystr \<Rightarrow> pystr" where
  "normalize_name_upper up U raw =
     rejoin (str '' '')
       (map (\<lambda>w. rejoin (str ''-'') (map (capitalize_upper up U) (subparts_from w [])))
            (words_from (trim raw) []))"

text \<open>
  U+00DF (LATIN SMALL LETTER SHARP S) in SpecialCasing.txt: its lower case is itself, its
  title case U+0053 U+0073 and its upper case U+0053 U+0053. The two tables below hold this
  entry and leave every other code point beyond ASCII alone.
\<close>

definition ucd_sharp_s :: unicode_case where
  "ucd_sharp_s = \<lparr>lower_full = (\<lambda>s i. [s ! i]),
                  title_full = (\<lambda>c. if c = 223 then [83, 115] else [c])\<rparr>"

definition upper_sharp_s :: "nat \<Rightarrow> pystr" where
  "upper_sharp_s c = (if c = 223 then [83, 83] else [c])"

section \<open>The address book\<close>

text \<open>\<^verbatim>\<open>Record.__str__\<close>, the rendered form of a record.\<close>

definition render :: "Record \<Rightarrow> pystr" where
  "render r =
     name r @ str '': '' @ py_join (str ''; '') (phones r)
     @ (case birthday r of None \<Rightarrow> [] | Some b \<Rightarrow> str '', Birthday: '' @ b)"

text \<open>
  \<^verbatim>\<open>AddressBook\<close> is a \<^verbatim>\<open>UserDict\<close>: its \<^verbatim>\<open>data\<close> is a dictionary, which keeps the
  insertion order of its keys. It is the list of its items here; \<open>dict_set\<close> is the
  assignment \<^verbatim>\<open>data[k] = v\<close>, which keeps the place of a key that is present and appends
  a new one.
\<close>

type_synonym AddressBook = "(pystr \<times> Record) list"

fun dict_set :: "'k \<Rightarrow> 'v \<Rightarrow> ('k \<times> 'v) list \<Rightarrow> ('k \<times> 'v) list" where
  "dict_set k v [] = [(k, v)]"
| "dict_set k v ((k', v') # d) = (if k' = k then (k', v) # d else (k', v') # dict_set k v d)"

definition add_record :: "AddressBook \<Rightarrow> Record \<Rightarrow> AddressBook" where
  "add_record book record = dict_set (name record) record book"

fun find_rec :: "unicode_case \<Rightarrow> AddressBook \<Rightarrow> pystr \<Rightarrow> Record option" where
  "find_rec U [] nm = None"
| "find_rec U ((key, record) # rest) nm =
     (if py_lower U key = py_lower U nm then Some record else find_rec U rest nm)"

definition name_exists :: "unicode_case \<Rightarrow> AddressBook \<Rightarrow> pystr \<Rightarrow> bool" where
  "name_exists U book nm = list_ex (\<lambda>(key, record). py_lower U nm = py_lower U key) book"


fun search_loop :: "unicode_case \<Rightarrow> pystr \<Rightarrow> Record list \<Rightarrow> pystr list \<Rightarrow> pystr list" where
  "search_loop U query [] result = result"
| "search_loop U query (record # rest) result =
     (let name_match = py_startswith (py_lower U (name record)) query;
          phone_match = list_ex (\<lambda>phone. py_contains query phone) (phones record)
      in if name_match \<or> phone_match
         then search_loop U query rest (result @ [render record])
         else search_loop U query rest result)"

definition search :: "unicode_case \<Rightarrow> AddressBook \<Rightarrow> pystr \<Rightarrow> pystr list" where
  "search U book query = search_loop U (py_lower U query) (map snd book) []"

text \<open>
  The search as the specification words it: the rendered forms of the records whose name
  starts with the query, compared case-insensitively, or that have a phone number which
  contains the query, in the order of the book.
\<close>

definition matches :: "unicode_case \<Rightarrow> pystr \<Rightarrow> Record \<Rightarrow> bool" where
  "matches U q r =
     (prefix (py_lower U q) (py_lower U (name r)) \<or> list_ex (\<lambda>p. sublist q p) (phones r))"

definition search_spec :: "unicode_case \<Rightarrow> AddressBook \<Rightarrow> pystr \<Rightarrow> pystr list" where
  "search_spec U book q = map render (filter (matches U q) (map snd book))"

text \<open>
  What the search theorem assumes of the data: the phones of a record went through the
  \<^verbatim>\<open>Phone\<close> constructor, and the Unicode database does not case-map digits (a digit
  is its own lower case, and the lower case of another code point has a code point that is
  no digit).
\<close>

definition valid_phones :: "Record \<Rightarrow> bool" where
  "valid_phones r = list_all (\<lambda>p. Phone p = Inr p) (phones r)"

definition digits_uncased :: "unicode_case \<Rightarrow> bool" where
  "digits_uncased U =
     (\<forall>s i. i < length s \<and> 128 \<le> s ! i \<longrightarrow>
        (if py_isdigit_cp (s ! i) then lower_full U s i = [s ! i]
         else list_ex (\<lambda>c. \<not> py_isdigit_cp c) (lower_full U s i)))"

text \<open>The two contacts of the search scenario, and a second record named Anna Lee.\<close>

definition two_contacts :: AddressBook where
  "two_contacts =
     [(str ''Anna Lee'', \<lparr>name = str ''Anna Lee'', phones = [str ''1112223333''], birthday = None\<rparr>),
      (str ''Lee Park'', \<lparr>name = str ''Lee Park'', phones = [str ''4445556666''], birthday = None\<rparr>)]"

definition anna_new :: Record where
  "anna_new = \<lparr>name = str ''Anna Lee'', phones = [str ''9998887777''], birthday = None\<rparr>"

section \<open>Dates\<close>

text \<open>
  \<^verbatim>\<open>datetime.date\<close>: a year from 1 to 9999, a month and a day of the proleptic Gregorian
  calendar. The constructor raises \<^verbatim>\<open>ValueError\<close> outside these ranges.
\<close>

record date =
  year :: nat
  month :: nat
  day :: nat

definition is_leap :: "nat \<Rightarrow> bool" where
  "is_leap y = (y mod 4 = 0 \<and> (y mod 100 \<noteq> 0 \<or> y mod 400 = 0))"

definition days_in_month :: "nat \<Rightarrow> nat \<Rightarrow> nat" where
  "days_in_month y m =
     (if m = 2 then (if is_leap y then 29 else 28)
      else if m = 4 \<or> m = 6 \<or> m = 9 \<or> m = 11 then 30 else 31)"

definition new_date :: "nat \<Rightarrow> nat \<Rightarrow> nat \<Rightarrow> error + date" where
  "new_date y m d =
     (if y < 1 \<or> 9999 < y then Inl (ValueError ''year is out of range'')
      else if m < 1 \<or> 12 < m then Inl (ValueError ''month must be in 1..12'')
      else if d < 1 \<or> days_in_month y m < d then Inl (ValueError ''day is out of range for month'')
      else Inr \<lparr>year = y, month = m, day = d\<rparr>)"

text \<open>Dates compare as the triples year, month, day.\<close>

definition date_less :: "date \<Rightarrow> date \<Rightarrow> bool" where
  "date_less a b =
     (year a < year b \<or> (year a = year b \<and> (month a < month b
        \<or> (month a = month b \<and> day a < day b))))"

definition date_le :: "date \<Rightarrow> date \<Rightarrow> bool" where
  "date_le a b = (date_less a b \<or> a = b)"

text \<open>\<^verbatim>\<open>date.replace(year=y)\<close> builds a new date and so validates it.\<close>

definition replace_year :: "date \<Rightarrow> nat \<Rightarrow> error + date" where
  "replace_year d y = new_date y (month d) (day d)"

text \<open>
  \<^verbatim>\<open>toordinal\<close> counts the days from 0001-01-01, which is day 1, and \<^verbatim>\<open>weekday\<close> is
  \<^verbatim>\<open>(toordinal() + 6) % 7\<close>: Monday is 0 and Sunday is 6.
\<close>

definition days_before_year :: "nat \<Rightarrow> nat" where
  "days_before_year y = (y - 1) * 365 + (y - 1) div 4 - (y - 1) div 100 + (y - 1) div 400"

definition days_before_month :: "nat \<Rightarrow> nat \<Rightarrow> nat" where
  "days_before_month y m =
     [0, 0, 31, 59, 90, 120, 151, 181, 212, 243, 273, 304, 334] ! m
     + (if 2 < m \<and> is_leap y then 1 else 0)"

definition toordinal :: "date \<Rightarrow> nat" where
  "toordinal d = days_before_year (year d) + days_before_month (year d) (month d) + day d"

definition weekday :: "date \<Rightarrow> nat" where
  "weekday d = (toordinal d + 6) mod 7"

text \<open>
  \<^verbatim>\<open>d + timedelta(days=n)\<close> is the date \<open>n\<close> days later; it raises \<^verbatim>\<open>OverflowError\<close> behind
  9999-12-31.
\<close>

definition next_day :: "date \<Rightarrow> error + date" where
  "next_day d =
     (if day d < days_in_month (year d) (month d) then Inr (d\<lparr>day := day d + 1\<rparr>)
      else if month d < 12 then Inr (d\<lparr>month := month d + 1, day := 1\<rparr>)
      else if year d < 9999 then Inr \<lparr>year = year d + 1, month = 1, day = 1\<rparr>
      else Inl OverflowError)"

fun date_plus :: "date \<Rightarrow> nat \<Rightarrow> error + date" where
  "date_plus d 0 = Inr d"
| "date_plus d (Suc n) = (case next_day d of Inl e \<Rightarrow> Inl e | Inr d' \<Rightarrow> date_plus d' n)"

text \<open>\<^verbatim>\<open>strftime('%d.%m.%Y')\<close>: the day and the month on two digits, the year on four.\<close>

definition digit_char :: "nat \<Rightarrow> nat" where
  "digit_char n = 48 + n mod 10"

definition strftime :: "date \<Rightarrow> pystr" where
  "strftime d =
     [digit_char (day d div 10), digit_char (day d), 46,
      digit_char (month d div 10), digit_char (month d), 46,
      digit_char (year d div 1000), digit_char (year d div 100), digit_char (year d div 10),
      digit_char (year d)]"

subsection \<open>Parsing\<close>

text \<open>
  \<^verbatim>\<open>datetime.strptime(s, "%d.%m.%Y")\<close> matches \<open>s\<close> against the regular expression
  \<^verbatim>\<open>(3[0-1]|[1-2]\d|0[1-9]|[1-9]| [1-9])\.(1[0-2]|0[1-9]|[1-9])\.(\d\d\d\d)\<close>, refuses text
  left behind the match, converts the three groups with \<^verbatim>\<open>int\<close> and builds the date.
  Each matcher returns, in the order of its alternatives, the value and the rest of the
  input for every alternative that matches; the first complete match is the one the
  backtracking matcher finds.
\<close>

definition digit19 :: "nat \<Rightarrow> bool" where
  "digit19 c = (49 \<le> c \<and> c \<le> 57)"

definition match_d :: "pystr \<Rightarrow> (nat \<times> pystr) list" where
  "match_d s =
     (case s of a # b # r \<Rightarrow> if a = 51 \<and> (b = 48 \<or> b = 49) then [(30 + (b - 48), r)] else []
              | _ \<Rightarrow> [])
   @ (case s of a # b # r \<Rightarrow> if (a = 49 \<or> a = 50) \<and> py_isdecimal_cp b
                              then [(10 * (a - 48) + py_decimal_value b, r)] else []
              | _ \<Rightarrow> [])
   @ (case s of a # b # r \<Rightarrow> if a = 48 \<and> digit19 b then [(b - 48, r)] else []
              | _ \<Rightarrow> [])
   @ (case s of a # r \<Rightarrow> if digit19 a then [(a - 48, r)] else []
              | _ \<Rightarrow> [])
   @ (case s of a # b # r \<Rightarrow> if a = 32 \<and> digit19 b then [(b - 48, r)] else []
              | _ \<Rightarrow> [])"

definition match_m :: "pystr \<Rightarrow> (nat \<times> pystr) list" where
  "match_m s =
     (case s of a # b # r \<Rightarrow> if a = 49 \<and> (b = 48 \<or> b = 49 \<or> b = 50) then [(10 + (b - 48), r)] else []
              | _ \<Rightarrow> [])
   @ (case s of a # b # r \<Rightarrow> if a = 48 \<and> digit19 b then [(b - 48, r)] else []
              | _ \<Rightarrow> [])
   @ (case s of a # r \<Rightarrow> if digit19 a then [(a - 48, r)] else []
              | _ \<Rightarrow> [])"

definition match_Y :: "pystr \<Rightarrow> (nat \<times> pystr) list" where
  "match_Y s =
     (case s of
        a # b # c # d # r \<Rightarrow>
          if py_isdecimal_cp a \<and> py_isdecimal_cp b \<and> py_isdecimal_cp c \<and> py_isdecimal_cp d
          then [(1000 * py_decimal_value a + 100 * py_decimal_value b
                 + 10 * py_decimal_value c + py_decimal_value d, r)]
          else []
      | _ \<Rightarrow> [])"

definition after_dot :: "(nat \<times> pystr) list \<Rightarrow> (nat \<times> pystr) list" where
  "after_dot xs =
     concat (map (\<lambda>(v, r). case r of [] \<Rightarrow> [] | c # r' \<Rightarrow> if c = 46 then [(v, r')] else []) xs)"

definition matches_of :: "pystr \<Rightarrow> (nat \<times> nat \<times> nat \<times> pystr) list" where
  "matches_of s =
     concat (map (\<lambda>(d, r1).
       concat (map (\<lambda>(m, r2).
         map (\<lambda>(y, r3). (d, m, y, r3)) (match_Y r2))
         (after_dot (match_m r1))))
       (after_dot (match_d s)))"

definition strptime :: "pystr \<Rightarrow> error + date" where
  "strptime s =
     (case matches_of s of
        [] \<Rightarrow> Inl (ValueError ''time data does not match format'')
      | (d, m, y, rest) # _ \<Rightarrow>
          if rest \<noteq> [] then Inl (ValueError ''unconverted data remains'')
          else new_date y m d)"

text \<open>\<^verbatim>\<open>Birthday(value)\<close>; \<open>today\<close> is \<^verbatim>\<open>datetime.today().date()\<close>.\<close>

definition Birthday :: "date \<Rightarrow> pystr \<Rightarrow> error + pystr" where
  "Birthday today v =
     (case strptime v of
        Inl _ \<Rightarrow> Inl (ValueError ''Invalid date format. Use DD.MM.YYYY'')
      | Inr birthday_date \<Rightarrow>
          if date_less today birthday_date
          then Inl (ValueError ''Birthday cannot be in the future.'')
          else Inr v)"

text \<open>
  The date format as the specification words it: two digits, a dot, two digits, a dot and
  four digits, with the numbers they denote.
\<close>

definition strict_format :: "pystr \<Rightarrow> bool" where
  "strict_format s =
     (case s of
        [d1, d2, p1, m1, m2, p2, y1, y2, y3, y4] \<Rightarrow>
          p1 = 46 \<and> p2 = 46 \<and> list_all ascii_digit [d1, d2, m1, m2, y1, y2, y3, y4]
      | _ \<Rightarrow> False)"

definition day_of :: "pystr \<Rightarrow> nat" where
  "day_of s = 10 * (s ! 0 - 48) + (s ! 1 - 48)"

definition month_of :: "pystr \<Rightarrow> nat" where
  "month_of s = 10 * (s ! 3 - 48) + (s ! 4 - 48)"

definition year_of :: "pystr \<Rightarrow> nat" where
  "year_of s = 1000 * (s ! 6 - 48) + 100 * (s ! 7 - 48) + 10 * (s ! 8 - 48) + (s ! 9 - 48)"

definition june_10_2024 :: date where
  "june_10_2024 = \<lparr>year = 2024, month = 6, day = 10\<rparr>"

section \<open>Upcoming birthdays\<close>

text \<open>
  \<^verbatim>\<open>get_upcoming_birthdays\<close>. \<open>shift_weekend\<close> is the move of a Saturday or Sunday to the
  Monday behind it, \<open>upcoming_entry\<close> the body of the \<^verbatim>\<open>try\<close> block for a record whose
  birthday has the value \<open>b\<close>: it returns what the body appends to \<^verbatim>\<open>upcoming\<close>, or
  the exception it raises. The loop catches \<^verbatim>\<open>ValueError\<close> only.
\<close>

definition shift_weekend :: "date \<Rightarrow> error + date" where
  "shift_weekend d =
     (if weekday d = 5 then date_plus d 2
      else if weekday d = 6 then date_plus d 1
      else Inr d)"

definition upcoming_entry :: "date \<Rightarrow> date \<Rightarrow> Record \<Rightarrow> pystr \<Rightarrow> error + pystr list" where
  "upcoming_entry today end_date record b =
     (case strptime b of
        Inl e \<Rightarrow> Inl e
      | Inr birthday_date \<Rightarrow>
          (case replace_year birthday_date (year today) of
             Inl e \<Rightarrow> Inl e
           | Inr this_year \<Rightarrow>
               (case (if date_less this_year today
                      then replace_year this_year (year today + 1)
                      else Inr this_year) of
                  Inl e \<Rightarrow> Inl e
                | Inr birthday_this_year \<Rightarrow>
                    if date_le today birthday_this_year \<and> date_le birthday_this_year end_date
                    then (case shift_weekend birthday_this_year of
                            Inl e \<Rightarrow> Inl e
                          | Inr congratulation_date \<Rightarrow>
                              Inr [name record @ str '': '' @ strftime congratulation_date])
                    else Inr [])))"

fun upcoming_loop :: "date \<Rightarrow> date \<Rightarrow> Record list \<Rightarrow> pystr list \<Rightarrow> error + pystr list" where
  "upcoming_loop today end_date [] upcoming = Inr upcoming"
| "upcoming_loop today end_date (record # rest) upcoming =
     (case birthday record of
        None \<Rightarrow> upcoming_loop today end_date rest upcoming
      | Some b \<Rightarrow>
          (case upcoming_entry today end_date record b of
             Inl (ValueError msg) \<Rightarrow> upcoming_loop today end_date rest upcoming
           | Inl e \<Rightarrow> Inl e
           | Inr new \<Rightarrow> upcoming_loop today end_date rest (upcoming @ new)))"

definition get_upcoming_birthdays :: "date \<Rightarrow> AddressBook \<Rightarrow> error + pystr list" where
  "get_upcoming_birthdays today book =
     (case date_plus today 7 of
        Inl e \<Rightarrow> Inl e
      | Inr end_date \<Rightarrow> upcoming_loop today end_date (map snd book) [])"

text \<open>
  The scheduling as the specification words it. \<open>next_occurrence\<close>: the birthday with the
  year of today, or with the next year when that date is before today; there is none when
  such a date does not exist. \<open>in_window\<close>: the inclusive window from today to the end
  date. \<open>congratulation_date\<close>: a Saturday moves forward by 2 days and a Sunday by 1.
\<close>

definition next_occurrence :: "date \<Rightarrow> date \<Rightarrow> date option" where
  "next_occurrence today bd =
     (case new_date (year today) (month bd) (day bd) of
        Inl e \<Rightarrow> None
      | Inr c \<Rightarrow>
          if date_less c today
          then (case new_date (year today + 1) (month bd) (day bd) of
                  Inl e \<Rightarrow> None
                | Inr c' \<Rightarrow> Some c')
          else Some c)"

definition in_window :: "date \<Rightarrow> date \<Rightarrow> date \<Rightarrow> bool" where
  "in_window today end_date c = (date_le today c \<and> date_le c end_date)"

definition congratulation_date :: "date \<Rightarrow> date" where
  "congratulation_date c =
     (case date_plus c (if weekday c = 5 then 2 else if weekday c = 6 then 1 else 0) of
        Inl e \<Rightarrow> c
      | Inr d \<Rightarrow> d)"

definition upcoming_spec :: "date \<Rightarrow> date \<Rightarrow> Record \<Rightarrow> pystr list" where
  "upcoming_spec today end_date r =
     (case birthday r of
        None \<Rightarrow> []
      | Some b \<Rightarrow>
          (case strptime b of
             Inl e \<Rightarrow> []
           | Inr bd \<Rightarrow>
               (case next_occurrence today bd of
                  None \<Rightarrow> []
                | Some c \<Rightarrow>
                    if in_window today end_date c
                    then [name r @ str '': '' @ strftime (congratulation_date c)]
                    else [])))"

text \<open>The dates and records of the scheduling scenarios.\<close>

definition june_17_2024 :: date where
  "june_17_2024 = \<lparr>year = 2024, month = 6, day = 17\<rparr>"

definition feb_25_2023 :: date where
  "feb_25_2023 = \<lparr>year = 2023, month = 2, day = 25\<rparr>"

definition dec_28_9999 :: date where
  "dec_28_9999 = \<lparr>year = 9999, month = 12, day = 28\<rparr>"

definition anna_june_15 :: Record where
  "anna_june_15 = \<lparr>name = str ''Anna'', phones = [], birthday = Some (str ''15.06.1990'')\<rparr>"

definition bob_june_20 :: Record where
  "bob_june_20 = \<lparr>name = str ''Bob'', phones = [], birthday = Some (str ''20.06.1990'')\<rparr>"

definition cara_feb_29 :: Record where
  "cara_feb_29 = \<lparr>name = str ''Cara'', phones = [], birthday = Some (str ''29.02.2000'')\<rparr>"

definition dan_dec_30 :: Record where
  "dan_dec_30 = \<lparr>name = str ''Dan'', phones = [], birthday = Some (str ''30.12.1990'')\<rparr>"

definition eve_feb_27 :: Record where
  "eve_feb_27 = \<lparr>name = str ''Eve'', phones = [], birthday = Some (str ''27.02.1990'')\<rparr>"

section \<open>Command handlers\<close>

text \<open>
  A handler returns a message or raises, and changes the book in place: the model returns
  the book after the call beside the outcome. The decorator \<^verbatim>\<open>input_error\<close> turns
  \<^verbatim>\<open>KeyError\<close>, \<^verbatim>\<open>ValueError\<close> and \<^verbatim>\<open>IndexError\<close> into messages and lets every other
  exception through.
\<close>

datatype outcome = Message pystr | Raise error

fun input_error :: "outcome \<Rightarrow> outcome" where
  "input_error (Raise (KeyError e)) = Message (str ''Contact not found.'')"
| "input_error (Raise (ValueError e)) = Message (str e)"
| "input_error (Raise IndexError) = Message (str ''Missing input. Please provide valid arguments.'')"
| "input_error out = out"

text \<open>
  \<^verbatim>\<open>add_contact\<close>. \<open>first_phone\<close> is the loop that looks for the first argument of ten
  digits, \<open>add_phones\<close> the loop that adds the phones to the new record: \<open>Inl\<close> is the
  message of its early return. \<^verbatim>\<open>Record.add_phone\<close> catches the \<^verbatim>\<open>ValueError\<close> of the
  \<^verbatim>\<open>Phone\<close> constructor itself and returns \<^verbatim>\<open>False\<close>, so the \<^verbatim>\<open>except\<close> branch of this
  loop is never entered.
\<close>

fun first_phone :: "pystr list \<Rightarrow> nat \<Rightarrow> nat option" where
  "first_phone [] i = None"
| "first_phone (arg # rest) i =
     (if py_isdigit arg \<and> length arg = 10 then Some i else first_phone rest (Suc i))"

fun add_phones :: "Record \<Rightarrow> pystr list \<Rightarrow> pystr + Record" where
  "add_phones record [] = Inr record"
| "add_phones record (phone # rest) =
     (case add_phone record phone of
        (record', added) \<Rightarrow>
          if \<not> added
          then Inl (str ''Phone number '' @ [39] @ phone @ [39] @ str '' already exists.'')
          else add_phones record' rest)"

definition add_contact_body :: "unicode_case \<Rightarrow> pystr list \<Rightarrow> AddressBook \<Rightarrow> outcome \<times> AddressBook" where
  "add_contact_body U args book =
     (if length args < 2
      then (Raise (ValueError ''Please enter name and at least one phone number.''), book)
      else
        (case first_phone args 0 of
           None \<Rightarrow>
             (Raise (ValueError ''At least one valid phone number required (10 digits).''), book)
         | Some phone_start_index \<Rightarrow>
             (let name_parts = take phone_start_index args;
                  phone_args = drop phone_start_index args
              in if name_parts = [] then (Raise (ValueError ''Name is missing.''), book)
                 else
                   (let nm = normalize_name U (py_join (str '' '') name_parts)
                    in if name_exists U book nm
                       then (Message (str ''Contact with this name already exists.''), book)
                       else
                         (case add_phones (new_Record nm) phone_args of
                            Inl msg \<Rightarrow> (Message msg, book)
                          | Inr record \<Rightarrow>
                              (Message (str ''Contact added.''), add_record book record))))))"

definition add_contact :: "unicode_case \<Rightarrow> pystr list \<Rightarrow> AddressBook \<Rightarrow> outcome \<times> AddressBook" where
  "add_contact U args book =
     (case add_contact_body U args book of (out, book') \<Rightarrow> (input_error out, book'))"







text \<open>The records and the book of the Anna scenario.\<close>

definition anna :: Record where
  "anna = \<lparr>name = str ''Anna'', phones = [str ''1234567890''], birthday = None\<rparr>"

definition anna_book :: AddressBook where
  "anna_book = [(str ''Anna'', anna)]"

section \<open>Properties\<close>

subsection \<open>Strings\<close>

lemma str_Nil [simp]: "str [] = []"
  by (simp add: str_def)

lemma str_Cons [simp]: "str (c # cs) = of_char c # str cs"
  by (simp add: str_def)

lemma ascii_digit_isdigit: "ascii_digit c \<Longrightarrow> py_isdigit_cp c"
  by (simp add: ascii_digit_def py_isdigit_cp_def py_isdecimal_cp_def)

lemma isdigit_ascii: "c < 128 \<Longrightarrow> py_isdigit_cp c = ascii_digit c"
  by (auto simp: ascii_digit_def py_isdigit_cp_def py_isdecimal_cp_def)

subsection \<open>Phone numbers\<close>

lemma Phone_cases: "Phone v = Inr v \<or> (\<exists>m. Phone v = Inl (ValueError m))"
  by (simp add: Phone_def)

lemma Phone_Inr_iff: "Phone v = Inr p \<longleftrightarrow> p = v \<and> length v = 10 \<and> list_all py_isdigit_cp v"
  by (auto simp: Phone_def py_isdigit_def)

lemma is_ascii_digits: "is_ascii s \<Longrightarrow> list_all py_isdigit_cp s = list_all ascii_digit s"
  by (induction s) (auto simp: is_ascii_def isdigit_ascii)

text \<open>
  Claim C3, as the code has it: \<^verbatim>\<open>Phone(s)\<close> succeeds iff \<open>s\<close> has exactly 10 code points
  and \<^verbatim>\<open>str.isdigit\<close> accepts each of them; the value constructed is \<open>s\<close>; every other
  string raises \<^verbatim>\<open>ValueError\<close>. When \<open>s\<close> is ASCII, that is: iff \<open>s\<close> consists of exactly
  ten ASCII decimal digits.
\<close>

theorem Phone_validation:
  "(Phone s = Inr s \<longleftrightarrow> length s = 10 \<and> list_all py_isdigit_cp s) \<and>
   (Phone s \<noteq> Inr s \<longrightarrow> (\<exists>m. Phone s = Inl (ValueError m))) \<and>
   (\<forall>p. Phone s = Inr p \<longrightarrow> p = s) \<and>
   (is_ascii s \<longrightarrow> (Phone s = Inr s \<longleftrightarrow> ten_ascii_digits s))"
  using Phone_cases [of s]
  by (auto simp: Phone_Inr_iff is_ascii_digits ten_ascii_digits_def)

theorem Phone_validation_witness:
  "is_ascii (str ''1112223333'') \<and> Phone (str ''1112223333'') = Inr (str ''1112223333'')
   \<and> Phone (str ''12a'') \<noteq> Inr (str ''12a'')
   \<and> (\<exists>m. Phone (str ''12a'') = Inl (ValueError m))"
  using Phone_validation [of "str ''1112223333''"] Phone_validation [of "str ''12a''"]
  by (simp add: is_ascii_def ten_ascii_digits_def ascii_digit_def py_isdigit_cp_def
      py_isdecimal_cp_def in_ranges_def other_digit_ranges_def decimal_ranges_def)

text \<open>
  The ten Arabic-Indic digits U+0660 to U+0669 are no ASCII digits, and the constructor
  takes them.
\<close>

theorem Phone_arabic_indic_counterexample:
  "Phone [1632, 1633, 1634, 1635, 1636, 1637, 1638, 1639, 1640, 1641]
     = Inr [1632, 1633, 1634, 1635, 1636, 1637, 1638, 1639, 1640, 1641]
   \<and> \<not> ten_ascii_digits [1632, 1633, 1634, 1635, 1636, 1637, 1638, 1639, 1640, 1641]"
  by (simp add: Phone_def py_isdigit_def py_isdigit_cp_def py_isdecimal_cp_def in_ranges_def
      decimal_ranges_def ten_ascii_digits_def ascii_digit_def)

subsection \<open>Phones of a record\<close>

lemma find_in_Some: "find_in ps x = Some p \<longleftrightarrow> p = x \<and> x \<in> set ps"
  by (induction ps) auto

lemma find_in_None: "find_in ps x = None \<longleftrightarrow> x \<notin> set ps"
  by (induction ps) auto

lemma edit_phone_flag:
  "snd (edit_phone r old new) \<longleftrightarrow> old \<in> set (phones r) \<and> Phone new = Inr new"
  using Phone_cases [of new]
  by (auto simp: edit_phone_def find_phone_def find_in_Some find_in_None Let_def
      split: option.splits sum.splits)

lemma edit_phone_success:
  "old \<in> set (phones r) \<Longrightarrow> Phone new = Inr new \<Longrightarrow>
   edit_phone r old new = (r\<lparr>phones := remove1 old (phones r) @ [new]\<rparr>, True)"
  by (auto simp: edit_phone_def find_phone_def find_in_Some find_in_None Let_def
      split: option.splits sum.splits)

lemma edit_phone_absent:
  "old \<notin> set (phones r) \<Longrightarrow> edit_phone r old new = (r, False)"
  by (auto simp: edit_phone_def find_phone_def find_in_Some find_in_None Let_def
      split: option.splits sum.splits)

lemma edit_phone_example:
  "edit_phone \<lparr>name = str ''Anna'', phones = [str ''1111111111''], birthday = None\<rparr>
     (str ''1111111111'') (str ''2222222222'') = (r', ok) \<Longrightarrow>
   ok \<and> find_phone r' (str ''1111111111'') = None
      \<and> find_phone r' (str ''2222222222'') = Some (str ''2222222222'')"
  by (auto simp add: edit_phone_def find_phone_def Phone_def Let_def py_isdigit_def
      py_isdigit_cp_def py_isdecimal_cp_def)

text \<open>
  Claim C1 says that a call of \<^verbatim>\<open>edit_phone\<close> that returns false leaves the phones of
  the record as they were. The old phone is removed before the new one is validated:
  with phones \<^verbatim>\<open>["1111111111"]\<close>, \<^verbatim>\<open>edit_phone("1111111111", "123")\<close> returns false
  and leaves the record without a phone.
\<close>

theorem edit_phone_invalid_new_drops_old:
  "edit_phone \<lparr>name = str ''Anna'', phones = [str ''1111111111''], birthday = None\<rparr>
     (str ''1111111111'') (str ''123'')
   = (\<lparr>name = str ''Anna'', phones = [], birthday = None\<rparr>, False)"
  by (simp add: edit_phone_def find_phone_def Phone_def Let_def)

subsection \<open>Name normalization\<close>

lemma ltrim_dropWhile: "ltrim s = dropWhile py_isspace_cp s"
  by (induction s) auto

lemma trim_strip: "trim s = py_strip s"
  by (simp add: trim_def py_strip_def ltrim_dropWhile)

lemma py_join_Cons: "py_join sep (p # ps) = p @ concat (map (\<lambda>x. sep @ x) ps)"
  by (induction ps arbitrary: p) auto

lemma foldl_join: "foldl (\<lambda>acc x. acc @ sep @ x) p ps = p @ concat (map (\<lambda>x. sep @ x) ps)"
  by (induction ps arbitrary: p) auto

lemma rejoin_join: "rejoin sep ps = py_join sep ps"
  by (cases ps) (simp_all add: rejoin_def foldl_join py_join_Cons)

lemma py_split_Nil [simp]: "py_split [] = []"
  by (simp add: py_split.simps)

lemma py_split_dropWhile: "py_split (dropWhile py_isspace_cp s) = py_split s"
  by (subst (1 2) py_split.simps) simp

lemma py_split_space_Cons: "py_isspace_cp c \<Longrightarrow> py_split (c # s) = py_split s"
  using py_split_dropWhile [of "c # s"] py_split_dropWhile [of s] by simp

lemma py_split_word_end:
  assumes "word w"
  shows "py_split w = [w]"
proof -
  obtain a v where w: "w = a # v" using assms by (cases w) (auto simp: word_def)
  have ns: "\<forall>x\<in>set w. \<not> py_isspace_cp x" using assms by (simp add: word_def list_all_iff)
  have d: "dropWhile py_isspace_cp w = w" using w ns by simp
  have t: "takeWhile (\<lambda>c. \<not> py_isspace_cp c) w = w"
    using ns by (simp add: takeWhile_eq_all_conv)
  have r: "dropWhile (\<lambda>c. \<not> py_isspace_cp c) w = []"
    using ns by (simp add: dropWhile_eq_Nil_conv)
  have "py_split w = (if w = [] then [] else w # py_split [])"
    by (subst py_split.simps) (simp only: Let_def d t r)
  then show ?thesis using w by simp
qed

lemma py_split_word_space:
  assumes "word w" "py_isspace_cp c"
  shows "py_split (w @ c # s) = w # py_split s"
proof -
  obtain a v where w: "w = a # v" using assms(1) by (cases w) (auto simp: word_def)
  have ns: "\<forall>x\<in>set w. \<not> py_isspace_cp x" using assms(1) by (simp add: word_def list_all_iff)
  have d: "dropWhile py_isspace_cp (w @ c # s) = w @ c # s" using w ns by simp
  have t: "takeWhile (\<lambda>c. \<not> py_isspace_cp c) (w @ c # s) = w"
    using ns assms(2) by (simp add: takeWhile_append2)
  have r: "dropWhile (\<lambda>c. \<not> py_isspace_cp c) (w @ c # s) = c # s"
    using ns assms(2) by (simp add: dropWhile_append2)
  show ?thesis
    apply (subst py_split.simps)
    using d t r w by (simp add: Let_def py_split_space_Cons assms(2))
qed

lemma words_py_split: "\<forall>w\<in>set (py_split s). word w"
proof (induction s rule: py_split.induct)
  case (1 s)
  show ?case
  proof (cases "dropWhile py_isspace_cp s = []")
    case True
    then show ?thesis by (subst py_split.simps) simp
  next
    case False
    let ?r = "dropWhile py_isspace_cp s"
    have h: "\<not> py_isspace_cp (hd ?r)" using False by (metis hd_dropWhile)
    have "word (takeWhile (\<lambda>c. \<not> py_isspace_cp c) ?r)"
      using False h by (cases ?r) (auto simp: word_def list_all_iff dest: set_takeWhileD)
    moreover have "\<forall>w\<in>set (py_split (dropWhile (\<lambda>c. \<not> py_isspace_cp c) ?r)). word w"
      using 1 [OF refl False] .
    ultimately show ?thesis using False
      by (subst py_split.simps) (simp add: Let_def)
  qed
qed

lemma words_from_split:
  "cur = [] \<or> word cur \<Longrightarrow> words_from s cur = py_split (cur @ s)"
proof (induction s arbitrary: cur)
  case Nil
  then show ?case by (auto simp: py_split_word_end)
next
  case (Cons c cs)
  show ?case
  proof (cases "py_isspace_cp c")
    case True
    then show ?thesis using Cons.prems Cons.IH [of "[]"]
      by (auto simp: py_split_space_Cons py_split_word_space)
  next
    case False
    then have "word (cur @ [c])" using Cons.prems by (auto simp: word_def)
    then show ?thesis using False Cons.IH [of "cur @ [c]"] by simp
  qed
qed

lemma py_split_on_ne [simp]: "py_split_on sep s \<noteq> []"
  by (induction s) (auto split: list.splits)

lemma py_split_on_prefix:
  "sep \<notin> set cur \<Longrightarrow> py_split_on sep (cur @ sep # s) = cur # py_split_on sep s"
  by (induction cur) (auto split: list.splits)

lemma py_split_on_none: "sep \<notin> set cur \<Longrightarrow> py_split_on sep cur = [cur]"
  by (induction cur) (auto split: list.splits)

lemma subparts_from_split:
  "45 \<notin> set cur \<Longrightarrow> subparts_from s cur = py_split_on 45 (cur @ s)"
proof (induction s arbitrary: cur)
  case Nil
  then show ?case by (simp add: py_split_on_none)
next
  case (Cons c cs)
  then show ?case
    using Cons.IH [of "[]"] Cons.IH [of "cur @ [c]"]
    by (auto simp: py_split_on_prefix)
qed

lemma words_from_trailing:
  "list_all py_isspace_cp ws \<Longrightarrow> words_from (s @ ws) cur = words_from s cur"
proof (induction s arbitrary: cur)
  case Nil
  have "list_all py_isspace_cp ws \<Longrightarrow> words_from ws [] = []" for ws
    by (induction ws) auto
  then show ?case using Nil by (cases ws) auto
next
  case (Cons c cs)
  then show ?case by simp
qed

lemma py_split_words_from: "py_split s = words_from s []"
  using words_from_split [of "[]" s] by simp

lemma py_split_trailing: "list_all py_isspace_cp ws \<Longrightarrow> py_split (s @ ws) = py_split s"
  by (simp add: py_split_words_from words_from_trailing)

lemma py_split_strip: "py_split (py_strip s) = py_split s"
proof -
  let ?t = "dropWhile py_isspace_cp s"
  have "?t = rev (dropWhile py_isspace_cp (rev ?t)) @ rev (takeWhile py_isspace_cp (rev ?t))"
    by (metis rev_append rev_rev_ident takeWhile_dropWhile_id)
  moreover have "list_all py_isspace_cp (rev (takeWhile py_isspace_cp (rev ?t)))"
    by (auto simp: list_all_iff dest: set_takeWhileD)
  ultimately have "py_split ?t = py_split (rev (dropWhile py_isspace_cp (rev ?t)))"
    using py_split_trailing by metis
  then show ?thesis by (simp add: py_strip_def py_split_dropWhile)
qed

lemma space_32: "py_isspace_cp 32"
  by (simp add: py_isspace_cp_def in_ranges_def)

lemma py_split_join:
  "list_all word vs \<Longrightarrow> py_split (py_join [32] vs) = vs"
proof (induction "[32::nat]" vs rule: py_join.induct)
  case 1
  then show ?case by simp
next
  case (2 x)
  then show ?case by (simp add: py_split_word_end)
next
  case (3 x y ys)
  then show ?case by (simp add: py_split_word_space space_32)
qed

lemma py_split_subset: "\<forall>w\<in>set (py_split s). set w \<subseteq> set s"
proof (induction s rule: py_split.induct)
  case (1 s)
  show ?case
  proof (cases "dropWhile py_isspace_cp s = []")
    case True
    then show ?thesis by (subst py_split.simps) simp
  next
    case False
    let ?r = "dropWhile py_isspace_cp s"
    have rs: "set ?r \<subseteq> set s" by (auto dest: set_dropWhileD)
    have a: "set (takeWhile (\<lambda>c. \<not> py_isspace_cp c) ?r) \<subseteq> set s"
      using rs by (auto dest: set_takeWhileD)
    have "\<forall>w\<in>set (py_split (dropWhile (\<lambda>c. \<not> py_isspace_cp c) ?r)).
            set w \<subseteq> set (dropWhile (\<lambda>c. \<not> py_isspace_cp c) ?r)"
      using 1 [OF refl False] .
    then have b: "\<forall>w\<in>set (py_split (dropWhile (\<lambda>c. \<not> py_isspace_cp c) ?r)). set w \<subseteq> set s"
      using rs by (meson set_dropWhileD subset_iff)
    show ?thesis using False a b
      by (subst py_split.simps) (simp add: Let_def)
  qed
qed

lemma py_split_ascii: "is_ascii s \<Longrightarrow> w \<in> set (py_split s) \<Longrightarrow> is_ascii w"
  using py_split_subset [of s] by (auto simp: is_ascii_def list_all_iff)

lemma concat_singletons: "concat (map (\<lambda>i. [g i]) xs) = map g xs"
  by (induction xs) auto

lemma lower_at_ascii: "is_ascii s \<Longrightarrow> i < length s \<Longrightarrow> lower_at U s i = [ascii_lower (s ! i)]"
  by (simp add: lower_at_def is_ascii_def list_all_length)

lemma py_lower_ascii: "is_ascii s \<Longrightarrow> py_lower U s = map ascii_lower s"
proof -
  assume a: "is_ascii s"
  have "map (lower_at U s) [0..<length s] = map (\<lambda>i. [ascii_lower (s ! i)]) [0..<length s]"
    using a by (simp add: lower_at_ascii)
  then have "py_lower U s = concat (map (\<lambda>i. [ascii_lower (s ! i)]) [0..<length s])"
    unfolding py_lower_def by (rule arg_cong)
  then have "py_lower U s = map (\<lambda>i. ascii_lower (s ! i)) [0..<length s]"
    by (simp only: concat_singletons)
  also have "\<dots> = map ascii_lower s"
    by (rule nth_equalityI) simp_all
  finally show ?thesis .
qed

lemma py_capitalize_ascii: "is_ascii p \<Longrightarrow> py_capitalize U p = capitalize_spec p"
proof (cases p)
  case Nil
  then show ?thesis by (simp add: py_capitalize_def capitalize_spec_def)
next
  case (Cons c cs)
  assume a: "is_ascii p"
  have "map (lower_at U p) [1..<length p] = map (\<lambda>i. [ascii_lower (p ! i)]) [1..<length p]"
    using a by (simp add: lower_at_ascii)
  then have "concat (map (lower_at U p) [1..<length p])
      = concat (map (\<lambda>i. [ascii_lower (p ! i)]) [1..<length p])"
    by (rule arg_cong)
  then have "concat (map (lower_at U p) [1..<length p]) = map (\<lambda>i. ascii_lower (p ! i)) [1..<length p]"
    by (simp only: concat_singletons)
  also have "\<dots> = map (\<lambda>i. ascii_lower (p ! i)) (map Suc [0..<length cs])"
    using Cons by (simp add: map_Suc_upt del: upt_Suc)
  also have "\<dots> = map (\<lambda>i. ascii_lower (cs ! i)) [0..<length cs]"
    using Cons by simp
  also have "\<dots> = map ascii_lower cs"
    by (rule nth_equalityI) simp_all
  finally show ?thesis using Cons a
    by (simp add: py_capitalize_def capitalize_spec_def is_ascii_def)
qed

lemma py_split_on_subset: "\<forall>w\<in>set (py_split_on sep s). set w \<subseteq> set s"
  by (induction s) (auto split: list.splits)

lemma join_cap_run:
  "py_split_on 45 w = p # ps \<Longrightarrow>
   cap_run b w = (if b then capitalize_spec p else map ascii_lower p)
                 @ concat (map (\<lambda>x. 45 # capitalize_spec x) ps)"
proof (induction w arbitrary: b p ps)
  case Nil
  then show ?case by (auto simp: capitalize_spec_def)
next
  case (Cons c cs)
  obtain q qs where q: "py_split_on 45 cs = q # qs"
    by (cases "py_split_on 45 cs") simp_all
  show ?case
  proof (cases "c = 45")
    case True
    then have "p = []" and "ps = q # qs" using Cons.prems q by simp_all
    then show ?thesis using True Cons.IH [OF q, of True]
      by (simp add: capitalize_spec_def)
  next
    case False
    then have "p = c # q" and "ps = qs" using Cons.prems q by simp_all
    then show ?thesis using False Cons.IH [OF q, of False]
      by (simp add: capitalize_spec_def)
  qed
qed

lemma fix_part_ascii: "is_ascii w \<Longrightarrow> fix_part U w = cap_run True w"
proof -
  assume a: "is_ascii w"
  obtain p ps where s: "py_split_on 45 w = p # ps"
    by (cases "py_split_on 45 w") simp_all
  have "\<forall>x\<in>set (p # ps). is_ascii x"
    using py_split_on_subset [of 45 w] a s by (auto simp: is_ascii_def list_all_iff)
  then have "map (py_capitalize U) (p # ps) = map capitalize_spec (p # ps)"
    by (simp add: py_capitalize_ascii)
  then have "fix_part U w = py_join (str ''-'') (map capitalize_spec (p # ps))"
    by (simp only: fix_part_def s)
  then show ?thesis using join_cap_run [OF s, of True]
    by (simp add: py_join_Cons comp_def)
qed

lemma normalize_name_ascii: "is_ascii x \<Longrightarrow> normalize_name U x = normalize_ascii x"
proof -
  assume a: "is_ascii x"
  have "map (fix_part U) (py_split x) = map (cap_run True) (py_split x)"
    using a by (auto simp: fix_part_ascii py_split_ascii)
  then show ?thesis by (simp only: normalize_name_def normalize_ascii_def py_split_strip)
qed

lemma upper_not_space: "py_isspace_cp (ascii_upper c) = py_isspace_cp c"
  by (auto simp: py_isspace_cp_def in_ranges_def ascii_upper_def)

lemma lower_not_space: "py_isspace_cp (ascii_lower c) = py_isspace_cp c"
  by (auto simp: py_isspace_cp_def in_ranges_def ascii_lower_def)

lemma cap_run_length [simp]: "length (cap_run b w) = length w"
  by (induction w arbitrary: b) auto

lemma hyphen_not_space: "\<not> py_isspace_cp 45"
  by (simp add: py_isspace_cp_def in_ranges_def)

lemma ascii_case_hyphen: "(ascii_upper c = 45) = (c = 45)" "(ascii_lower c = 45) = (c = 45)"
  by (auto simp: ascii_upper_def ascii_lower_def)

lemma ascii_case_idem:
  "ascii_upper (ascii_upper c) = ascii_upper c" "ascii_lower (ascii_lower c) = ascii_lower c"
  "ascii_upper (ascii_lower c) = ascii_upper c"
  by (auto simp: ascii_upper_def ascii_lower_def)

lemma ascii_case_bound: "c < 128 \<Longrightarrow> ascii_upper c < 128" "c < 128 \<Longrightarrow> ascii_lower c < 128"
  by (auto simp: ascii_upper_def ascii_lower_def)

lemma cap_run_spaces:
  "list_all (\<lambda>c. \<not> py_isspace_cp c) w \<Longrightarrow> list_all (\<lambda>c. \<not> py_isspace_cp c) (cap_run b w)"
  by (induction w arbitrary: b) (simp_all add: upper_not_space lower_not_space hyphen_not_space)

lemma cap_run_word: "word w \<Longrightarrow> word (cap_run b w)"
proof -
  assume w: "word w"
  then have "cap_run b w \<noteq> []" by (cases w) (auto simp: word_def)
  then show ?thesis using w cap_run_spaces [of w b] by (simp add: word_def)
qed

lemma cap_run_is_ascii: "is_ascii w \<Longrightarrow> is_ascii (cap_run b w)"
  by (induction w arbitrary: b) (simp_all add: is_ascii_def ascii_case_bound)

lemma cap_run_idem: "cap_run b (cap_run b w) = cap_run b w"
  by (induction w arbitrary: b) (simp_all add: ascii_case_hyphen ascii_case_idem)

lemma py_join_is_ascii: "list_all is_ascii vs \<Longrightarrow> is_ascii sep \<Longrightarrow> is_ascii (py_join sep vs)"
  by (induction sep vs rule: py_join.induct) (auto simp: is_ascii_def)

lemma normalize_ascii_idem: "normalize_ascii (normalize_ascii x) = normalize_ascii x"
proof -
  let ?vs = "map (cap_run True) (py_split x)"
  have w: "list_all word ?vs"
    using words_py_split [of x] by (auto simp: list_all_iff cap_run_word)
  have "py_split (py_join [32] ?vs) = ?vs"
    using py_split_join [OF w] .
  then show ?thesis by (simp add: normalize_ascii_def cap_run_idem comp_def)
qed

lemma normalize_ascii_is_ascii:
  assumes "is_ascii x"
  shows "is_ascii (normalize_ascii x)"
proof -
  have "list_all is_ascii (map (cap_run True) (py_split x))"
    using assms by (simp add: list_all_iff cap_run_is_ascii py_split_ascii)
  moreover have "is_ascii (str '' '')" by (simp add: is_ascii_def)
  ultimately show ?thesis
    unfolding normalize_ascii_def by (rule py_join_is_ascii)
qed

lemma fix_part_subparts:
  "fix_part U w = rejoin (str ''-'') (map (py_capitalize U) (subparts_from w []))"
  using subparts_from_split [of "[]" w] by (simp add: fix_part_def rejoin_join)

lemma normalize_name_structure:
  "normalize_name U raw =
     rejoin (str '' '')
       (map (\<lambda>w. rejoin (str ''-'') (map (py_capitalize U) (subparts_from w [])))
            (words_from (trim raw) []))"
proof -
  have "(\<lambda>w. rejoin (str ''-'') (map (py_capitalize U) (subparts_from w []))) = fix_part U"
    by (rule ext) (simp only: fix_part_subparts)
  then show ?thesis
    by (simp only: normalize_name_def rejoin_join trim_strip py_split_words_from)
qed

lemma normalize_name_spec_ascii:
  assumes "is_ascii raw"
  shows "normalize_name U raw = normalize_name_spec raw"
proof -
  have "fix_part U w = rejoin (str ''-'') (map capitalize_spec (subparts_from w []))"
    if "w \<in> set (py_split (py_strip raw))" for w
  proof -
    have "is_ascii w" using that assms py_split_ascii by (simp add: py_split_strip)
    then have "\<forall>x\<in>set (py_split_on 45 w). is_ascii x"
      using py_split_on_subset [of 45 w] by (auto simp: is_ascii_def list_all_iff)
    then have m: "map (py_capitalize U) (py_split_on 45 w) = map capitalize_spec (py_split_on 45 w)"
      by (simp add: py_capitalize_ascii)
    have "fix_part U w = py_join (str ''-'') (map capitalize_spec (py_split_on 45 w))"
      by (simp only: fix_part_def m)
    then show ?thesis
      using subparts_from_split [of "[]" w] by (simp add: rejoin_join)
  qed
  then have "map (fix_part U) (py_split (py_strip raw))
      = map (\<lambda>w. rejoin (str ''-'') (map capitalize_spec (subparts_from w [])))
            (py_split (py_strip raw))"
    by simp
  then show ?thesis
    by (simp only: normalize_name_def normalize_name_spec_def rejoin_join trim_strip
        py_split_words_from)
qed

lemma normalize_name_example:
  "normalize_name U (str ''jean-paul  DUPONT'') = str ''Jean-Paul Dupont''"
proof -
  have "is_ascii (str ''jean-paul  DUPONT'')" by (simp add: is_ascii_def)
  then have "normalize_name U (str ''jean-paul  DUPONT'') = normalize_ascii (str ''jean-paul  DUPONT'')"
    by (rule normalize_name_ascii)
  also have "\<dots> = str ''Jean-Paul Dupont''"
    by (simp add: normalize_ascii_def py_split.simps py_isspace_cp_def in_ranges_def Let_def
        ascii_upper_def ascii_lower_def)
  finally show ?thesis .
qed

lemma capitalize_upper_ascii: "is_ascii p \<Longrightarrow> capitalize_upper up U p = py_capitalize U p"
  by (cases p) (simp_all add: capitalize_upper_def py_capitalize_def is_ascii_def)

lemma normalize_name_upper_ascii:
  assumes "is_ascii raw"
  shows "normalize_name_upper up U raw = normalize_name U raw"
proof -
  have "rejoin (str ''-'') (map (capitalize_upper up U) (subparts_from w [])) = fix_part U w"
    if "w \<in> set (py_split (py_strip raw))" for w
  proof -
    have "is_ascii w" using that assms py_split_ascii by (simp add: py_split_strip)
    then have "\<forall>x\<in>set (py_split_on 45 w). is_ascii x"
      using py_split_on_subset [of 45 w] by (auto simp: is_ascii_def list_all_iff)
    then have m: "map (capitalize_upper up U) (py_split_on 45 w)
        = map (py_capitalize U) (py_split_on 45 w)"
      by (simp add: capitalize_upper_ascii)
    have "subparts_from w [] = py_split_on 45 w"
      using subparts_from_split [of "[]" w] by simp
    then show ?thesis by (simp only: m fix_part_def rejoin_join)
  qed
  then have "map (\<lambda>w. rejoin (str ''-'') (map (capitalize_upper up U) (subparts_from w [])))
                 (py_split (py_strip raw))
      = map (fix_part U) (py_split (py_strip raw))"
    by simp
  then show ?thesis
    by (simp only: normalize_name_def normalize_name_upper_def rejoin_join trim_strip
        py_split_words_from)
qed

text \<open>
  Claim C9, for ASCII strings: for every string \<open>raw\<close> of ASCII code points,
  \<^verbatim>\<open>normalize_name(raw)\<close> trims the outer whitespace, splits on the inner whitespace into
  words, splits each word on the hyphen into subparts, capitalizes each subpart (first code
  point upper case, rest lower case), rejoins the subparts with the hyphen and the words
  with single spaces; and \<^verbatim>\<open>normalize_name("jean-paul  DUPONT")\<close> is
  \<^verbatim>\<open>"Jean-Paul Dupont"\<close>.
\<close>

theorem normalize_name_algorithm_ascii:
  "(is_ascii raw \<longrightarrow>
      normalize_name U raw = normalize_name_spec raw
      \<and> normalize_name U raw = normalize_name_upper up U raw)
   \<and> normalize_name U (str ''jean-paul  DUPONT'') = str ''Jean-Paul Dupont''"
  using normalize_name_spec_ascii [of raw U] normalize_name_upper_ascii [of raw up U]
    normalize_name_example [of U]
  by simp

theorem normalize_name_algorithm_ascii_witness:
  "is_ascii (str '' anna-maria  LEE '')
   \<and> normalize_name ucd_excerpt (str '' anna-maria  LEE '') = str ''Anna-Maria Lee''
   \<and> normalize_name_spec (str '' anna-maria  LEE '') = str ''Anna-Maria Lee''
   \<and> normalize_name_upper upper_sharp_s ucd_excerpt (str '' anna-maria  LEE '') = str ''Anna-Maria Lee''"
proof -
  have a: "is_ascii (str '' anna-maria  LEE '')" by (simp add: is_ascii_def)
  have s: "normalize_name_spec (str '' anna-maria  LEE '') = str ''Anna-Maria Lee''"
    by (simp add: normalize_name_spec_def trim_def rejoin_def capitalize_spec_def
        py_isspace_cp_def in_ranges_def ascii_upper_def ascii_lower_def)
  show ?thesis
    using normalize_name_algorithm_ascii [of "str '' anna-maria  LEE ''" ucd_excerpt upper_sharp_s]
      a s
    by metis
qed

text \<open>
  Beyond ASCII the first code point does not always get its upper case:
  \<^verbatim>\<open>str.capitalize\<close> gives it its title case, and a sharp s followed by an a becomes
  \<^verbatim>\<open>Ssa\<close>, where the upper case of the sharp s is \<^verbatim>\<open>SS\<close>.
\<close>

lemma normalize_name_sharp_s: "normalize_name ucd_sharp_s [223, 97] = [83, 115, 97]"
  by (simp add: normalize_name_def fix_part_def py_strip_def py_split.simps py_capitalize_def
      ucd_sharp_s_def py_isspace_cp_def in_ranges_def Let_def lower_at_def ascii_lower_def)

lemma normalize_name_upper_sharp_s:
  "normalize_name_upper upper_sharp_s ucd_sharp_s [223, 97] = [83, 83, 97]"
  by (simp add: normalize_name_upper_def trim_def rejoin_def capitalize_upper_def
      ucd_sharp_s_def upper_sharp_s_def py_isspace_cp_def in_ranges_def lower_at_def
      ascii_lower_def)

theorem normalize_name_title_case_counterexample:
  "normalize_name ucd_sharp_s [223, 97] \<noteq> normalize_name_upper upper_sharp_s ucd_sharp_s [223, 97]"
  by (simp add: normalize_name_sharp_s normalize_name_upper_sharp_s)

text \<open>
  Claim C8, for ASCII strings: \<^verbatim>\<open>normalize_name\<close> is idempotent on every string of ASCII
  code points.
\<close>

theorem normalize_name_idempotent_ascii:
  "is_ascii x \<Longrightarrow> normalize_name U (normalize_name U x) = normalize_name U x"
  by (simp add: normalize_name_ascii normalize_ascii_is_ascii normalize_ascii_idem)

theorem normalize_name_idempotent_witness:
  "is_ascii (str ''jean-paul  DUPONT'') \<and>
   normalize_name ucd_excerpt (normalize_name ucd_excerpt (str ''jean-paul  DUPONT''))
     = normalize_name ucd_excerpt (str ''jean-paul  DUPONT'')"
  using normalize_name_idempotent_ascii [of "str ''jean-paul  DUPONT''" ucd_excerpt]
  by (simp add: is_ascii_def)

text \<open>
  Beyond ASCII the idempotence fails: U+0149 is capitalized to U+02BC U+004E, and a second
  pass lowers the capital N behind the apostrophe.
\<close>

lemma normalize_name_U0149: "normalize_name ucd_excerpt [329] = [700, 78]"
  by (simp add: normalize_name_def fix_part_def py_strip_def py_split.simps py_capitalize_def
      ucd_excerpt_def py_isspace_cp_def in_ranges_def Let_def)

lemma normalize_name_U02BC_N: "normalize_name ucd_excerpt [700, 78] = [700, 110]"
  by (simp add: normalize_name_def fix_part_def py_strip_def py_split.simps py_capitalize_def
      ucd_excerpt_def py_isspace_cp_def in_ranges_def Let_def lower_at_def ascii_lower_def)

theorem normalize_name_not_idempotent:
  "normalize_name ucd_excerpt (normalize_name ucd_excerpt [329]) \<noteq> normalize_name ucd_excerpt [329]"
  by (simp add: normalize_name_U0149 normalize_name_U02BC_N)

subsection \<open>Search\<close>

lemma py_startswith_prefix: "py_startswith s p = prefix p s"
  by (induction s p rule: py_startswith.induct) auto

lemma py_contains_sublist: "py_contains sub s = sublist sub s"
  by (induction s) (auto simp: py_startswith_prefix sublist_Cons_right)

lemma ascii_lower_digit: "c < 128 \<Longrightarrow> py_isdigit_cp (ascii_lower c) = py_isdigit_cp c"
  by (auto simp: isdigit_ascii ascii_lower_def ascii_digit_def)

lemma ascii_digit_lower: "c < 128 \<Longrightarrow> py_isdigit_cp c \<Longrightarrow> ascii_lower c = c"
  by (auto simp: isdigit_ascii ascii_lower_def ascii_digit_def)

lemma lower_at_digit:
  "digits_uncased U \<Longrightarrow> i < length s \<Longrightarrow> py_isdigit_cp (s ! i) \<Longrightarrow> lower_at U s i = [s ! i]"
  unfolding digits_uncased_def lower_at_def
  by (cases "s ! i < 128") (auto simp: ascii_digit_lower)

lemma lower_at_nondigit:
  "digits_uncased U \<Longrightarrow> i < length s \<Longrightarrow> \<not> py_isdigit_cp (s ! i) \<Longrightarrow>
   list_ex (\<lambda>c. \<not> py_isdigit_cp c) (lower_at U s i)"
  unfolding digits_uncased_def lower_at_def
  by (cases "s ! i < 128") (auto simp: ascii_lower_digit)

lemma py_lower_digits:
  assumes "digits_uncased U" "list_all py_isdigit_cp q"
  shows "py_lower U q = q"
proof -
  have "map (lower_at U q) [0..<length q] = map (\<lambda>i. [q ! i]) [0..<length q]"
    using assms by (simp add: lower_at_digit list_all_length)
  then have "py_lower U q = concat (map (\<lambda>i. [q ! i]) [0..<length q])"
    unfolding py_lower_def by (rule arg_cong)
  then have "py_lower U q = map (\<lambda>i. q ! i) [0..<length q]"
    by (simp only: concat_singletons)
  then show ?thesis by (simp add: map_nth)
qed

lemma py_lower_all_digits:
  assumes "digits_uncased U" "list_all py_isdigit_cp (py_lower U q)"
  shows "list_all py_isdigit_cp q"
proof (rule ccontr)
  assume "\<not> list_all py_isdigit_cp q"
  then obtain i where i: "i < length q" "\<not> py_isdigit_cp (q ! i)"
    by (auto simp: list_all_length)
  then obtain c where "c \<in> set (lower_at U q i)" "\<not> py_isdigit_cp c"
    using lower_at_nondigit [OF assms(1)] by (auto simp: list_ex_iff)
  moreover have "set (lower_at U q i) \<subseteq> set (py_lower U q)"
    using i(1) by (auto simp: py_lower_def)
  ultimately show False using assms(2) by (auto simp: list_all_iff)
qed

lemma sublist_all: "sublist xs ys \<Longrightarrow> list_all P ys \<Longrightarrow> list_all P xs"
  by (auto simp: sublist_def)

lemma phone_contains_lower:
  assumes "digits_uncased U" "Phone p = Inr p"
  shows "py_contains (py_lower U q) p = sublist q p"
proof -
  have d: "list_all py_isdigit_cp p" using assms(2) by (simp add: Phone_Inr_iff)
  show ?thesis
  proof
    assume "py_contains (py_lower U q) p"
    then have s: "sublist (py_lower U q) p" by (simp add: py_contains_sublist)
    then have "list_all py_isdigit_cp (py_lower U q)" using d by (rule sublist_all)
    then have "list_all py_isdigit_cp q" using assms(1) by (simp add: py_lower_all_digits)
    then show "sublist q p" using s assms(1) by (simp add: py_lower_digits)
  next
    assume s: "sublist q p"
    then have "list_all py_isdigit_cp q" using d by (rule sublist_all)
    then show "py_contains (py_lower U q) p"
      using s assms(1) by (simp add: py_lower_digits py_contains_sublist)
  qed
qed

lemma search_loop_filter:
  "search_loop U q rs acc =
     acc @ map render (filter (\<lambda>r. py_startswith (py_lower U (name r)) q
                                   \<or> list_ex (\<lambda>p. py_contains q p) (phones r)) rs)"
  by (induction rs arbitrary: acc) (simp_all add: Let_def)

lemma search_matches:
  assumes "digits_uncased U" "valid_phones r"
  shows "(py_startswith (py_lower U (name r)) (py_lower U q)
          \<or> list_ex (\<lambda>p. py_contains (py_lower U q) p) (phones r)) = matches U q r"
proof -
  have "list_ex (\<lambda>p. py_contains (py_lower U q) p) (phones r) = list_ex (\<lambda>p. sublist q p) (phones r)"
    using assms by (auto simp: list_ex_iff valid_phones_def list_all_iff phone_contains_lower)
  then show ?thesis by (simp add: matches_def py_startswith_prefix)
qed

lemma search_example: "search U two_contacts (str ''lee'') = [str ''Lee Park: 4445556666'']"
  unfolding search_def two_contacts_def
  by (simp add: py_lower_ascii is_ascii_def ascii_lower_def render_def Let_def)

text \<open>
  Claim C6: for every book whose phones are validated and every query \<open>q\<close>, \<^verbatim>\<open>search(q)\<close>
  returns exactly the rendered forms of the records whose name starts with \<open>q\<close> under
  case-insensitive comparison or one of whose phones contains \<open>q\<close>, in the order of the
  book; with the records Anna Lee (1112223333) and Lee Park (4445556666),
  \<^verbatim>\<open>search("lee")\<close> returns the one entry of Lee Park.
\<close>

theorem search_correct:
  "(digits_uncased U \<and> list_all valid_phones (map snd book)
      \<longrightarrow> search U book q = search_spec U book q)
   \<and> search U two_contacts (str ''lee'') = [str ''Lee Park: 4445556666'']"
proof (intro conjI impI)
  assume a: "digits_uncased U \<and> list_all valid_phones (map snd book)"
  have "(py_startswith (py_lower U (name r)) (py_lower U q)
          \<or> list_ex (\<lambda>p. py_contains (py_lower U q) p) (phones r)) = matches U q r"
    if "r \<in> set (map snd book)" for r
    using a that search_matches [of U r q] by (auto simp: list_all_iff)
  then have "filter (\<lambda>r. py_startswith (py_lower U (name r)) (py_lower U q)
                    \<or> list_ex (\<lambda>p. py_contains (py_lower U q) p) (phones r)) (map snd book)
        = filter (matches U q) (map snd book)"
    by (intro filter_cong refl)
  then show "search U book q = search_spec U book q"
    by (simp add: search_def search_spec_def search_loop_filter)
next
  show "search U two_contacts (str ''lee'') = [str ''Lee Park: 4445556666'']"
    by (rule search_example)
qed

lemma digits_uncased_excerpt: "digits_uncased ucd_excerpt"
  by (simp add: digits_uncased_def ucd_excerpt_def)

theorem search_correct_witness:
  "digits_uncased ucd_excerpt \<and> list_all valid_phones (map snd two_contacts)
   \<and> search ucd_excerpt two_contacts (str ''222'') = search_spec ucd_excerpt two_contacts (str ''222'')"
proof -
  have v: "list_all valid_phones (map snd two_contacts)"
    by (simp add: two_contacts_def valid_phones_def Phone_def py_isdigit_def py_isdigit_cp_def
        py_isdecimal_cp_def)
  show ?thesis
    using search_correct [of ucd_excerpt two_contacts "str ''222''"] digits_uncased_excerpt v
    by blast
qed

subsection \<open>Adding a record under a stored name\<close>

lemma dict_set_keys: "k \<in> fst ` set d \<Longrightarrow> map fst (dict_set k v d) = map fst d"
  by (induction d) force+

lemma dict_set_new_keys: "k \<notin> fst ` set d \<Longrightarrow> map fst (dict_set k v d) = map fst d @ [k]"
  by (induction d) auto

lemma dict_set_entries:
  "distinct (map fst d) \<Longrightarrow>
   set (dict_set k v d) = insert (k, v) {(k', v'). (k', v') \<in> set d \<and> k' \<noteq> k}"
proof (induction d)
  case Nil
  then show ?case by simp
next
  case (Cons p d)
  obtain a b where p: "p = (a, b)" by (cases p)
  show ?case
  proof (cases "a = k")
    case True
    then have "k \<notin> fst ` set d" using Cons.prems p by simp
    then have "{(k', v'). (k', v') \<in> set (p # d) \<and> k' \<noteq> k} = set d"
      using True p by force
    then show ?thesis using True p by simp
  next
    case False
    have "set (dict_set k v d) = insert (k, v) {(k', v'). (k', v') \<in> set d \<and> k' \<noteq> k}"
      using Cons by simp
    then show ?thesis using False p by auto
  qed
qed

lemma dict_set_distinct: "distinct (map fst d) \<Longrightarrow> distinct (map fst (dict_set k v d))"
proof (cases "k \<in> fst ` set d")
  case True
  assume "distinct (map fst d)"
  then show ?thesis using True by (simp add: dict_set_keys)
next
  case False
  assume "distinct (map fst d)"
  then show ?thesis using False by (simp add: dict_set_new_keys)
qed

lemma dict_set_lookup: "map_of (dict_set k v d) k = Some v"
  by (induction d) auto

lemma find_rec_stored: "find_rec U book q = Some r \<Longrightarrow> \<exists>k. (k, r) \<in> set book"
  by (induction book) (auto split: if_splits)

text \<open>
  Claim C10: in a book that holds a record under the name \<open>n\<close>, \<^verbatim>\<open>add_record\<close> of a
  record with the same name replaces the stored record: the number of records and the
  order of the keys stay, the key \<open>n\<close> now holds the new record, the old entry is gone
  and every other entry stays, and \<^verbatim>\<open>find\<close> returns the new record or a record stored
  under another key, never the replaced entry.
\<close>

theorem add_record_same_name_replaces:
  assumes "distinct (map fst book)" and "(n, old) \<in> set book" and "name rec = n"
  shows "length (add_record book rec) = length book
       \<and> map fst (add_record book rec) = map fst book
       \<and> map_of (add_record book rec) n = Some rec
       \<and> set (add_record book rec) = insert (n, rec) (set book - {(n, old)})
       \<and> (\<forall>q r. find_rec U (add_record book rec) q = Some r \<longrightarrow>
             r = rec \<or> (\<exists>k. k \<noteq> n \<and> (k, r) \<in> set book))"
proof -
  have k: "n \<in> fst ` set book" using assms(2) by force
  have keys: "map fst (add_record book rec) = map fst book"
    using k assms(3) by (simp add: add_record_def dict_set_keys)
  have len: "length (add_record book rec) = length book"
    using keys by (metis length_map)
  have only: "{(k', v'). (k', v') \<in> set book \<and> k' \<noteq> n} = set book - {(n, old)}"
    using assms(1,2) by (auto simp: eq_key_imp_eq_value)
  have ent: "set (add_record book rec) = insert (n, rec) (set book - {(n, old)})"
    using assms(1,3) only by (simp add: add_record_def dict_set_entries)
  have look: "map_of (add_record book rec) n = Some rec"
    using assms(3) by (simp add: add_record_def dict_set_lookup)
  have fnd: "r = rec \<or> (\<exists>k. k \<noteq> n \<and> (k, r) \<in> set book)"
    if f: "find_rec U (add_record book rec) q = Some r" for q r
  proof -
    obtain k where "(k, r) \<in> set (add_record book rec)"
      using find_rec_stored [OF f] by blast
    then have "(k, r) = (n, rec) \<or> ((k, r) \<in> set book \<and> (k, r) \<noteq> (n, old))"
      using ent by auto
    moreover have "k \<noteq> n" if "(k, r) \<in> set book" "(k, r) \<noteq> (n, old)"
      using that assms(1,2) eq_key_imp_eq_value by fastforce
    ultimately show ?thesis by blast
  qed
  show ?thesis using len keys look ent fnd by blast
qed

theorem add_record_same_name_replaces_witness:
  "distinct (map fst two_contacts)
   \<and> (str ''Anna Lee'', \<lparr>name = str ''Anna Lee'', phones = [str ''1112223333''], birthday = None\<rparr>)
        \<in> set two_contacts
   \<and> name anna_new = str ''Anna Lee''
   \<and> length (add_record two_contacts anna_new) = length two_contacts
   \<and> map fst (add_record two_contacts anna_new) = map fst two_contacts
   \<and> map_of (add_record two_contacts anna_new) (str ''Anna Lee'') = Some anna_new"
proof -
  have a: "distinct (map fst two_contacts)" by (simp add: two_contacts_def)
  have b: "(str ''Anna Lee'', \<lparr>name = str ''Anna Lee'', phones = [str ''1112223333''], birthday = None\<rparr>)
        \<in> set two_contacts" by (simp add: two_contacts_def)
  have c: "name anna_new = str ''Anna Lee''" by (simp add: anna_new_def)
  show ?thesis using add_record_same_name_replaces [OF a b c, of ucd_excerpt] a b c by blast
qed

subsection \<open>Birthdays\<close>

lemma ascii_decimal: "ascii_digit c \<Longrightarrow> py_isdecimal_cp c \<and> py_decimal_value c = c - 48"
  by (simp add: ascii_digit_def py_isdecimal_cp_def py_decimal_value_def)

lemma dot_no_digit: "\<not> py_isdecimal_cp 46" "\<not> digit19 46" "\<not> ascii_digit 46"
  by (simp_all add: py_isdecimal_cp_def digit19_def ascii_digit_def)

lemma match_d_strict:
  assumes "ascii_digit a" "ascii_digit b"
  shows "after_dot (match_d (a # b # 46 # r))
       = (if 1 \<le> 10 * (a - 48) + (b - 48) \<and> 10 * (a - 48) + (b - 48) \<le> 31
          then [(10 * (a - 48) + (b - 48), r)] else [])"
proof -
  have b: "py_isdecimal_cp b" "py_decimal_value b = b - 48" "b \<noteq> 46"
    using assms(2) ascii_decimal [of b] by (auto simp: ascii_digit_def)
  show ?thesis
    using assms b(3) unfolding match_d_def after_dot_def
    by (auto simp: b(1,2) digit19_def ascii_digit_def)
qed

lemma match_m_strict:
  assumes "ascii_digit a" "ascii_digit b"
  shows "after_dot (match_m (a # b # 46 # r))
       = (if 1 \<le> 10 * (a - 48) + (b - 48) \<and> 10 * (a - 48) + (b - 48) \<le> 12
          then [(10 * (a - 48) + (b - 48), r)] else [])"
  using assms unfolding match_m_def after_dot_def
  by (auto simp: digit19_def ascii_digit_def)

lemma match_Y_strict:
  assumes "list_all ascii_digit [a, b, c, d]"
  shows "match_Y (a # b # c # d # r)
       = [(1000 * (a - 48) + 100 * (b - 48) + 10 * (c - 48) + (d - 48), r)]"
  using assms ascii_decimal [of a] ascii_decimal [of b] ascii_decimal [of c] ascii_decimal [of d]
  by (simp add: match_Y_def)

lemma strptime_strict:
  assumes "strict_format s"
  shows "strptime s =
     (if 1 \<le> day_of s \<and> day_of s \<le> 31 \<and> 1 \<le> month_of s \<and> month_of s \<le> 12
      then new_date (year_of s) (month_of s) (day_of s)
      else Inl (ValueError ''time data does not match format''))"
proof -
  obtain d1 d2 m1 m2 y1 y2 y3 y4 where
    s: "s = [d1, d2, 46, m1, m2, 46, y1, y2, y3, y4]"
    and dg: "ascii_digit d1" "ascii_digit d2" "ascii_digit m1" "ascii_digit m2"
      "list_all ascii_digit [y1, y2, y3, y4]"
    using assms unfolding strict_format_def
    by (auto split: list.splits)
  have d: "after_dot (match_d s)
      = (if 1 \<le> day_of s \<and> day_of s \<le> 31 then [(day_of s, [m1, m2, 46, y1, y2, y3, y4])] else [])"
    using match_d_strict [OF dg(1,2)] by (simp add: s day_of_def)
  have m: "after_dot (match_m [m1, m2, 46, y1, y2, y3, y4])
      = (if 1 \<le> month_of s \<and> month_of s \<le> 12 then [(month_of s, [y1, y2, y3, y4])] else [])"
    using match_m_strict [OF dg(3,4)] by (simp add: s month_of_def)
  have y: "match_Y [y1, y2, y3, y4] = [(year_of s, [])]"
    using match_Y_strict [OF dg(5)] by (simp add: s year_of_def)
  show ?thesis
    unfolding strptime_def matches_of_def d
    by (simp add: m y)
qed

lemma new_date_ranges:
  "new_date y m d = Inr bd \<Longrightarrow> 1 \<le> d \<and> d \<le> 31 \<and> 1 \<le> m \<and> m \<le> 12"
  by (auto simp: new_date_def days_in_month_def split: if_splits)

lemma strptime_strict_iff:
  assumes "strict_format s"
  shows "strptime s = Inr bd \<longleftrightarrow> new_date (year_of s) (month_of s) (day_of s) = Inr bd"
  using new_date_ranges [of "year_of s" "month_of s" "day_of s" bd]
  by (auto simp: strptime_strict [OF assms])

lemma Birthday_cases: "Birthday today s = Inr s \<or> (\<exists>msg. Birthday today s = Inl (ValueError msg))"
  by (simp add: Birthday_def split: sum.splits)

lemma Birthday_iff:
  "Birthday today s = Inr s \<longleftrightarrow> (\<exists>bd. strptime s = Inr bd \<and> \<not> date_less today bd)"
  by (auto simp: Birthday_def split: sum.splits)

text \<open>
  Claim C4, as the code has it: for every string \<open>s\<close> and current date \<open>today\<close>,
  \<^verbatim>\<open>Birthday(s)\<close> succeeds iff \<^verbatim>\<open>strptime\<close> parses \<open>s\<close> to a real calendar date that is not
  later than \<open>today\<close>, and raises \<^verbatim>\<open>ValueError\<close> otherwise; for every \<open>s\<close> that matches
  DD.MM.YYYY exactly it succeeds iff day, month and year are a real calendar date not later
  than \<open>today\<close>.
\<close>

theorem Birthday_validation:
  "(Birthday today s = Inr s \<longleftrightarrow> (\<exists>bd. strptime s = Inr bd \<and> \<not> date_less today bd))
   \<and> (Birthday today s \<noteq> Inr s \<longrightarrow> (\<exists>msg. Birthday today s = Inl (ValueError msg)))
   \<and> (strict_format s \<longrightarrow>
        (Birthday today s = Inr s \<longleftrightarrow>
           (\<exists>bd. new_date (year_of s) (month_of s) (day_of s) = Inr bd \<and> \<not> date_less today bd)))"
  using Birthday_cases [of today s]
  by (auto simp: Birthday_iff strptime_strict_iff)

lemma strict_15_06_1990: "strict_format (str ''15.06.1990'')"
  by (simp add: strict_format_def ascii_digit_def)

lemma strict_31_02_1990: "strict_format (str ''31.02.1990'')"
  by (simp add: strict_format_def ascii_digit_def)

lemma strict_11_06_2024: "strict_format (str ''11.06.2024'')"
  by (simp add: strict_format_def ascii_digit_def)

theorem Birthday_validation_witness:
  "strict_format (str ''15.06.1990'')
   \<and> Birthday june_10_2024 (str ''15.06.1990'') = Inr (str ''15.06.1990'')
   \<and> strict_format (str ''31.02.1990'')
   \<and> Birthday june_10_2024 (str ''31.02.1990'') \<noteq> Inr (str ''31.02.1990'')
   \<and> strict_format (str ''11.06.2024'')
   \<and> Birthday june_10_2024 (str ''11.06.2024'') \<noteq> Inr (str ''11.06.2024'')"
proof -
  have a: "new_date (year_of (str ''15.06.1990'')) (month_of (str ''15.06.1990''))
             (day_of (str ''15.06.1990'')) = Inr \<lparr>year = 1990, month = 6, day = 15\<rparr>"
    by (simp add: year_of_def month_of_def day_of_def new_date_def days_in_month_def)
  have a': "\<not> date_less june_10_2024 \<lparr>year = 1990, month = 6, day = 15\<rparr>"
    by (simp add: date_less_def june_10_2024_def)
  have b: "new_date (year_of (str ''31.02.1990'')) (month_of (str ''31.02.1990''))
             (day_of (str ''31.02.1990'')) = Inl (ValueError ''day is out of range for month'')"
    by (simp add: year_of_def month_of_def day_of_def new_date_def days_in_month_def is_leap_def)
  have c: "new_date (year_of (str ''11.06.2024'')) (month_of (str ''11.06.2024''))
             (day_of (str ''11.06.2024'')) = Inr \<lparr>year = 2024, month = 6, day = 11\<rparr>"
    by (simp add: year_of_def month_of_def day_of_def new_date_def days_in_month_def)
  have c': "date_less june_10_2024 \<lparr>year = 2024, month = 6, day = 11\<rparr>"
    by (simp add: date_less_def june_10_2024_def)
  have 1: "Birthday june_10_2024 (str ''15.06.1990'') = Inr (str ''15.06.1990'')"
    using Birthday_validation [of june_10_2024 "str ''15.06.1990''"] strict_15_06_1990 a a'
    by metis
  have 2: "Birthday june_10_2024 (str ''31.02.1990'') \<noteq> Inr (str ''31.02.1990'')"
    using Birthday_validation [of june_10_2024 "str ''31.02.1990''"] strict_31_02_1990 b
    by (metis Inl_Inr_False)
  have 3: "Birthday june_10_2024 (str ''11.06.2024'') \<noteq> Inr (str ''11.06.2024'')"
    using Birthday_validation [of june_10_2024 "str ''11.06.2024''"] strict_11_06_2024 c c'
    by (metis sum.inject(2))
  show ?thesis using 1 2 3 strict_15_06_1990 strict_31_02_1990 strict_11_06_2024 by blast
qed

text \<open>
  A string need not match DD.MM.YYYY exactly: \<^verbatim>\<open>strptime\<close> takes a day and a month of
  one digit.
\<close>

lemma strptime_1_1_2000: "strptime (str ''1.1.2000'') = Inr \<lparr>year = 2000, month = 1, day = 1\<rparr>"
  by (simp add: strptime_def matches_of_def match_d_def match_m_def match_Y_def after_dot_def
      digit19_def py_isdecimal_cp_def py_decimal_value_def new_date_def days_in_month_def)

theorem Birthday_one_digit_counterexample:
  "Birthday june_10_2024 (str ''1.1.2000'') = Inr (str ''1.1.2000'')
   \<and> \<not> strict_format (str ''1.1.2000'')"
proof (rule conjI)
  show "Birthday june_10_2024 (str ''1.1.2000'') = Inr (str ''1.1.2000'')"
    unfolding Birthday_def strptime_1_1_2000
    by (simp add: date_less_def june_10_2024_def)
  show "\<not> strict_format (str ''1.1.2000'')"
    by (simp add: strict_format_def)
qed

subsection \<open>Upcoming birthdays\<close>

lemma date_plus_1: "date_plus d 1 = next_day d"
  by (simp add: One_nat_def split: sum.splits)

lemma date_plus_2:
  "date_plus d 2 = (case next_day d of Inl e \<Rightarrow> Inl e | Inr d' \<Rightarrow> next_day d')"
  by (simp add: numeral_2_eq_2 split: sum.splits)

lemma new_date_valid:
  "new_date y m d = Inr c \<Longrightarrow>
   c = \<lparr>year = y, month = m, day = d\<rparr> \<and> 1 \<le> y \<and> y \<le> 9999 \<and> 1 \<le> m \<and> m \<le> 12
   \<and> 1 \<le> d \<and> d \<le> days_in_month y m"
  by (auto simp: new_date_def split: if_splits)

lemma new_date_error: "new_date y m d = Inl e \<Longrightarrow> \<exists>msg. e = ValueError msg"
  by (auto simp: new_date_def split: if_splits)

lemma strptime_error: "strptime s = Inl e \<Longrightarrow> \<exists>msg. e = ValueError msg"
  by (auto simp: strptime_def new_date_def split: list.splits if_splits)

lemma weekday_last_days:
  "weekday \<lparr>year = 9999, month = 12, day = 31\<rparr> = 4"
  "weekday \<lparr>year = 9999, month = 12, day = 30\<rparr> = 3"
  by (simp_all add: weekday_def toordinal_def days_before_year_def days_before_month_def
      is_leap_def)

lemma next_day_Inl:
  assumes "new_date y m d = Inr c" "next_day c = Inl e"
  shows "c = \<lparr>year = 9999, month = 12, day = 31\<rparr>"
proof -
  have v: "c = \<lparr>year = y, month = m, day = d\<rparr>" "y \<le> 9999" "m \<le> 12" "d \<le> days_in_month y m"
    using new_date_valid [OF assms(1)] by simp_all
  have "\<not> d < days_in_month y m" "\<not> m < 12" "\<not> y < 9999"
    using assms(2) v(1) by (auto simp: next_day_def split: if_splits)
  then have "y = 9999" "m = 12" "d = days_in_month y m" using v by simp_all
  then show ?thesis using v(1) by (simp add: days_in_month_def)
qed

lemma next_next_day_Inl:
  assumes "new_date y m d = Inr c" "next_day c = Inr c1" "next_day c1 = Inl e"
  shows "c = \<lparr>year = 9999, month = 12, day = 30\<rparr>"
proof -
  have v: "c = \<lparr>year = y, month = m, day = d\<rparr>" "y \<le> 9999" "m \<le> 12" "d \<le> days_in_month y m"
    using new_date_valid [OF assms(1)] by simp_all
  have dim: "1 < days_in_month y' m'" for y' m'
    by (simp add: days_in_month_def)
  show ?thesis
  proof (cases "d < days_in_month y m")
    case True
    then have c1: "c1 = \<lparr>year = y, month = m, day = d + 1\<rparr>"
      using assms(2) v(1) by (simp add: next_day_def)
    have "\<not> d + 1 < days_in_month y m" "\<not> m < 12" "\<not> y < 9999"
      using assms(3) c1 by (auto simp: next_day_def split: if_splits)
    then have "y = 9999" "m = 12" "d + 1 = days_in_month y m" using v True by simp_all
    then show ?thesis using v(1) by (simp add: days_in_month_def)
  next
    case False
    then have "day c1 = 1"
      using assms(2) v(1) by (auto simp: next_day_def split: if_splits)
    then have "day c1 < days_in_month (year c1) (month c1)" using dim by simp
    then show ?thesis using assms(3) by (simp add: next_day_def)
  qed
qed

lemma shift_weekend_valid:
  assumes "new_date y m d = Inr c"
  shows "shift_weekend c = Inr (congratulation_date c)"
proof -
  consider "weekday c = 5" | "weekday c = 6" | "weekday c \<noteq> 5 \<and> weekday c \<noteq> 6" by blast
  then show ?thesis
  proof cases
    case 1
    obtain c1 where c1: "next_day c = Inr c1"
      using next_day_Inl [OF assms] 1 weekday_last_days(1) by (cases "next_day c") auto
    obtain c2 where c2: "next_day c1 = Inr c2"
      using next_next_day_Inl [OF assms c1] 1 weekday_last_days(2) by (cases "next_day c1") auto
    show ?thesis using 1 c1 c2 by (simp add: shift_weekend_def congratulation_date_def date_plus_2)
  next
    case 2
    obtain c1 where c1: "next_day c = Inr c1"
      using next_day_Inl [OF assms] 2 weekday_last_days(1) by (cases "next_day c") auto
    show ?thesis using 2 c1 by (simp add: shift_weekend_def congratulation_date_def date_plus_1)
  next
    case 3
    then show ?thesis by (simp add: shift_weekend_def congratulation_date_def)
  qed
qed

lemma upcoming_entry_spec:
  assumes "birthday r = Some b"
  shows "(\<exists>msg. upcoming_entry today e r b = Inl (ValueError msg) \<and> upcoming_spec today e r = [])
       \<or> upcoming_entry today e r b = Inr (upcoming_spec today e r)"
proof (cases "strptime b")
  case (Inl err)
  then show ?thesis using assms strptime_error [OF Inl]
    by (auto simp: upcoming_entry_def upcoming_spec_def)
next
  case (Inr bd)
  show ?thesis
  proof (cases "new_date (year today) (month bd) (day bd)")
    case (Inl err)
    then show ?thesis using assms Inr new_date_error [OF Inl]
      by (auto simp: upcoming_entry_def upcoming_spec_def replace_year_def next_occurrence_def)
  next
    case c: (Inr c)
    have cf: "month c = month bd" "day c = day bd"
      using new_date_valid [OF c] by simp_all
    show ?thesis
    proof (cases "date_less c today")
      case False
      then show ?thesis
        using assms Inr c shift_weekend_valid [OF c]
        by (simp add: upcoming_entry_def upcoming_spec_def replace_year_def next_occurrence_def
            in_window_def)
    next
      case True
      show ?thesis
      proof (cases "new_date (year today + 1) (month bd) (day bd)")
        case (Inl err)
        then show ?thesis using assms Inr c True cf new_date_error [OF Inl]
          by (auto simp: upcoming_entry_def upcoming_spec_def replace_year_def next_occurrence_def)
      next
        case c': (Inr c')
        then show ?thesis
          using assms Inr c True cf shift_weekend_valid [OF c']
          by (simp add: upcoming_entry_def upcoming_spec_def replace_year_def next_occurrence_def
              in_window_def)
      qed
    qed
  qed
qed

lemma upcoming_loop_spec:
  "upcoming_loop today e rs acc = Inr (acc @ concat (map (upcoming_spec today e) rs))"
proof (induction rs arbitrary: acc)
  case Nil
  then show ?case by simp
next
  case (Cons r rs)
  show ?case
  proof (cases "birthday r")
    case None
    then show ?thesis using Cons by (simp add: upcoming_spec_def)
  next
    case (Some b)
    then show ?thesis using Cons upcoming_entry_spec [OF Some, of today e]
      by auto
  qed
qed

lemma get_upcoming_birthdays_spec:
  "get_upcoming_birthdays today book =
     (case date_plus today 7 of
        Inl e \<Rightarrow> Inl e
      | Inr end_date \<Rightarrow> Inr (concat (map (upcoming_spec today end_date) (map snd book))))"
  by (simp add: get_upcoming_birthdays_def upcoming_loop_spec split: sum.splits)

subsection \<open>The scheduling scenarios\<close>

lemmas strptime_eval =
  strptime_def matches_of_def match_d_def match_m_def match_Y_def after_dot_def
  digit19_def py_isdecimal_cp_def py_decimal_value_def new_date_def days_in_month_def is_leap_def

lemma strptime_scenarios:
  "strptime (str ''15.06.1990'') = Inr \<lparr>year = 1990, month = 6, day = 15\<rparr>"
  "strptime (str ''20.06.1990'') = Inr \<lparr>year = 1990, month = 6, day = 20\<rparr>"
  "strptime (str ''29.02.2000'') = Inr \<lparr>year = 2000, month = 2, day = 29\<rparr>"
  "strptime (str ''30.12.1990'') = Inr \<lparr>year = 1990, month = 12, day = 30\<rparr>"
  "strptime (str ''27.02.1990'') = Inr \<lparr>year = 1990, month = 2, day = 27\<rparr>"
  by (simp_all add: strptime_eval)

lemma date_plus_7:
  "date_plus d 7 =
     (case next_day d of Inl e \<Rightarrow> Inl e | Inr d1 \<Rightarrow>
      case next_day d1 of Inl e \<Rightarrow> Inl e | Inr d2 \<Rightarrow>
      case next_day d2 of Inl e \<Rightarrow> Inl e | Inr d3 \<Rightarrow>
      case next_day d3 of Inl e \<Rightarrow> Inl e | Inr d4 \<Rightarrow>
      case next_day d4 of Inl e \<Rightarrow> Inl e | Inr d5 \<Rightarrow>
      case next_day d5 of Inl e \<Rightarrow> Inl e | Inr d6 \<Rightarrow> next_day d6)"
  by (simp add: eval_nat_numeral split: sum.splits)

lemma window_june_10: "date_plus june_10_2024 7 = Inr june_17_2024"
  by (simp add: date_plus_7 next_day_def days_in_month_def june_10_2024_def june_17_2024_def)

lemma window_feb_25: "date_plus feb_25_2023 7 = Inr \<lparr>year = 2023, month = 3, day = 4\<rparr>"
  by (simp add: date_plus_7 next_day_def days_in_month_def is_leap_def feb_25_2023_def)

lemma window_dec_28: "date_plus dec_28_9999 7 = Inl OverflowError"
  by (simp add: date_plus_7 next_day_def days_in_month_def dec_28_9999_def)

lemmas date_eval =
  next_occurrence_def in_window_def congratulation_date_def date_le_def date_less_def
  new_date_def days_in_month_def is_leap_def weekday_def toordinal_def days_before_year_def
  days_before_month_def date_plus_1 date_plus_2 next_day_def strftime_def digit_char_def

lemma spec_anna:
  "upcoming_spec june_10_2024 june_17_2024 anna_june_15 = [str ''Anna: 17.06.2024'']"
  unfolding upcoming_spec_def anna_june_15_def
  by (simp add: strptime_scenarios [simplified] june_10_2024_def june_17_2024_def date_eval)

lemma spec_bob: "upcoming_spec june_10_2024 june_17_2024 bob_june_20 = []"
  unfolding upcoming_spec_def bob_june_20_def
  by (simp add: strptime_scenarios [simplified] june_10_2024_def june_17_2024_def date_eval)

lemma spec_eve:
  "upcoming_spec feb_25_2023 \<lparr>year = 2023, month = 3, day = 4\<rparr> eve_feb_27 = [str ''Eve: 27.02.2023'']"
  unfolding upcoming_spec_def eve_feb_27_def
  by (simp add: strptime_scenarios [simplified] feb_25_2023_def date_eval)

text \<open>
  Claim C2, when the end of the window is a date: for every current date \<open>today\<close> whose
  seventh day ahead \<open>end_date\<close> exists and every book, \<^verbatim>\<open>get_upcoming_birthdays\<close> returns,
  in the order of the book, one entry for each record with a birthday whose next occurrence
  (the year of today, or the next year when that date is before today) lies in the
  inclusive window from \<open>today\<close> to \<open>end_date\<close>, and nothing for the other records; the
  entry holds the name and that occurrence moved forward by 2 days when it is a Saturday and
  by 1 day when it is a Sunday, the window being tested before the move. With today
  2024-06-10 a birthday on June 15 is reported as 17.06.2024 and one on June 20 is omitted.
\<close>

theorem upcoming_birthdays_window:
  "(date_plus today 7 = Inr end_date \<longrightarrow>
      get_upcoming_birthdays today book
        = Inr (concat (map (upcoming_spec today end_date) (map snd book))))
   \<and> (new_date y m d = Inr c \<longrightarrow>
        date_plus c (if weekday c = 5 then 2 else if weekday c = 6 then 1 else 0)
          = Inr (congratulation_date c))
   \<and> get_upcoming_birthdays june_10_2024 [(str ''Anna'', anna_june_15)]
        = Inr [str ''Anna: 17.06.2024'']
   \<and> get_upcoming_birthdays june_10_2024 [(str ''Bob'', bob_june_20)] = Inr []"
proof (intro conjI impI)
  assume "date_plus today 7 = Inr end_date"
  then show "get_upcoming_birthdays today book
      = Inr (concat (map (upcoming_spec today end_date) (map snd book)))"
    by (simp add: get_upcoming_birthdays_spec)
next
  assume c: "new_date y m d = Inr c"
  show "date_plus c (if weekday c = 5 then 2 else if weekday c = 6 then 1 else 0)
      = Inr (congratulation_date c)"
    using shift_weekend_valid [OF c] by (simp add: shift_weekend_def split: if_splits)
next
  show "get_upcoming_birthdays june_10_2024 [(str ''Anna'', anna_june_15)]
      = Inr [str ''Anna: 17.06.2024'']"
    by (simp add: get_upcoming_birthdays_spec window_june_10 spec_anna)
next
  show "get_upcoming_birthdays june_10_2024 [(str ''Bob'', bob_june_20)] = Inr []"
    by (simp add: get_upcoming_birthdays_spec window_june_10 spec_bob)
qed

theorem upcoming_birthdays_window_witness:
  "date_plus june_10_2024 7 = Inr june_17_2024
   \<and> get_upcoming_birthdays june_10_2024
        [(str ''Bob'', bob_june_20), (str ''Anna'', anna_june_15)]
      = Inr [str ''Anna: 17.06.2024'']
   \<and> new_date 2024 6 15 = Inr \<lparr>year = 2024, month = 6, day = 15\<rparr>
   \<and> weekday \<lparr>year = 2024, month = 6, day = 15\<rparr> = 5
   \<and> congratulation_date \<lparr>year = 2024, month = 6, day = 15\<rparr> = june_17_2024"
proof -
  have n: "new_date 2024 6 15 = Inr \<lparr>year = 2024, month = 6, day = 15\<rparr>"
    by (simp add: new_date_def days_in_month_def)
  have w: "weekday \<lparr>year = 2024, month = 6, day = 15\<rparr> = 5"
    by (simp add: weekday_def toordinal_def days_before_year_def days_before_month_def is_leap_def)
  have p: "date_plus \<lparr>year = 2024, month = 6, day = 15\<rparr> 2 = Inr june_17_2024"
    by (simp add: date_plus_2 next_day_def days_in_month_def june_17_2024_def)
  note t = upcoming_birthdays_window [of june_10_2024 june_17_2024
      "[(str ''Bob'', bob_june_20), (str ''Anna'', anna_june_15)]" 2024 6 15
      "\<lparr>year = 2024, month = 6, day = 15\<rparr>"]
  have g: "get_upcoming_birthdays june_10_2024
        [(str ''Bob'', bob_june_20), (str ''Anna'', anna_june_15)]
      = Inr [str ''Anna: 17.06.2024'']"
    using t window_june_10 by (simp add: spec_anna spec_bob)
  have "date_plus \<lparr>year = 2024, month = 6, day = 15\<rparr> 2
      = Inr (congratulation_date \<lparr>year = 2024, month = 6, day = 15\<rparr>)"
    using t n w by simp
  then have cd: "congratulation_date \<lparr>year = 2024, month = 6, day = 15\<rparr> = june_17_2024"
    using p by simp
  show ?thesis using window_june_10 g n w cd by blast
qed

text \<open>
  Without that condition no list is returned: on 9999-12-28 the end of the window is no date,
  \<^verbatim>\<open>today + timedelta(days=7)\<close> raises \<^verbatim>\<open>OverflowError\<close> before any record is looked at,
  though the next occurrence of a birthday on December 30 is two days ahead.
\<close>

theorem upcoming_birthdays_overflow_counterexample:
  "get_upcoming_birthdays dec_28_9999 [(str ''Dan'', dan_dec_30)] = Inl OverflowError
   \<and> next_occurrence dec_28_9999 \<lparr>year = 1990, month = 12, day = 30\<rparr>
        = Some \<lparr>year = 9999, month = 12, day = 30\<rparr>
   \<and> toordinal \<lparr>year = 9999, month = 12, day = 30\<rparr> = toordinal dec_28_9999 + 2"
proof (intro conjI)
  show "get_upcoming_birthdays dec_28_9999 [(str ''Dan'', dan_dec_30)] = Inl OverflowError"
    by (simp add: get_upcoming_birthdays_def window_dec_28)
next
  show "next_occurrence dec_28_9999 \<lparr>year = 1990, month = 12, day = 30\<rparr>
      = Some \<lparr>year = 9999, month = 12, day = 30\<rparr>"
    by (simp add: dec_28_9999_def next_occurrence_def replace_year_def new_date_def
        days_in_month_def date_less_def)
next
  show "toordinal \<lparr>year = 9999, month = 12, day = 30\<rparr> = toordinal dec_28_9999 + 2"
    by (simp add: dec_28_9999_def toordinal_def)
qed

text \<open>
  Claim C7, when the end of the window is a date: for every record whose stored birthday
  is February 29 and every current date in a year that is no leap year, the body of the
  loop raises \<^verbatim>\<open>ValueError\<close> for that record, which the loop catches: the loop goes on as
  if the record were not in the book, so the other records are processed, and when the
  seventh day ahead of today exists \<^verbatim>\<open>get_upcoming_birthdays\<close> returns a list.
\<close>

theorem leap_day_birthday_skipped:
  assumes "birthday r = Some b" and "strptime b = Inr bd" and "month bd = 2" and "day bd = 29"
    and "\<not> is_leap (year today)"
  shows "(\<exists>msg. upcoming_entry today end_date r b = Inl (ValueError msg))
       \<and> upcoming_loop today end_date (rs1 @ r # rs2) acc
           = upcoming_loop today end_date (rs1 @ rs2) acc
       \<and> get_upcoming_birthdays today (book1 @ (k, r) # book2)
           = get_upcoming_birthdays today (book1 @ book2)
       \<and> (date_plus today 7 = Inr end_date \<longrightarrow>
            (\<exists>out. get_upcoming_birthdays today (book1 @ (k, r) # book2) = Inr out))"
proof -
  have "\<exists>msg. new_date (year today) 2 29 = Inl (ValueError msg)"
    using assms(5) by (simp add: new_date_def days_in_month_def)
  then have e: "\<exists>msg. upcoming_entry today e' r b = Inl (ValueError msg)" for e'
    using assms(2,3,4) by (auto simp: upcoming_entry_def replace_year_def)
  have s: "upcoming_spec today e' r = []" for e'
    using upcoming_entry_spec [OF assms(1), of today e'] e [of e'] by auto
  have l: "upcoming_loop today end_date (rs1 @ r # rs2) acc
      = upcoming_loop today end_date (rs1 @ rs2) acc"
    by (simp add: upcoming_loop_spec s)
  have g: "get_upcoming_birthdays today (book1 @ (k, r) # book2)
      = get_upcoming_birthdays today (book1 @ book2)"
    by (simp add: get_upcoming_birthdays_spec s split: sum.splits)
  have o: "\<exists>out. get_upcoming_birthdays today (book1 @ (k, r) # book2) = Inr out"
    if "date_plus today 7 = Inr end_date"
    using that by (simp add: get_upcoming_birthdays_spec)
  show ?thesis using e l g o by blast
qed

theorem leap_day_birthday_skipped_witness:
  "birthday cara_feb_29 = Some (str ''29.02.2000'')
   \<and> strptime (str ''29.02.2000'') = Inr \<lparr>year = 2000, month = 2, day = 29\<rparr>
   \<and> \<not> is_leap (year feb_25_2023)
   \<and> date_plus feb_25_2023 7 = Inr \<lparr>year = 2023, month = 3, day = 4\<rparr>
   \<and> get_upcoming_birthdays feb_25_2023
        [(str ''Cara'', cara_feb_29), (str ''Eve'', eve_feb_27)]
      = Inr [str ''Eve: 27.02.2023'']"
proof -
  have a: "birthday cara_feb_29 = Some (str ''29.02.2000'')" by (simp add: cara_feb_29_def)
  have b: "strptime (str ''29.02.2000'') = Inr \<lparr>year = 2000, month = 2, day = 29\<rparr>"
    by (rule strptime_scenarios)
  have c: "\<not> is_leap (year feb_25_2023)" by (simp add: feb_25_2023_def is_leap_def)
  have "get_upcoming_birthdays feb_25_2023 ([] @ (str ''Cara'', cara_feb_29) # [(str ''Eve'', eve_feb_27)])
      = get_upcoming_birthdays feb_25_2023 ([] @ [(str ''Eve'', eve_feb_27)])"
    using leap_day_birthday_skipped [OF a b _ _ c, of "\<lparr>year = 2023, month = 3, day = 4\<rparr>"
        "[]" "[]" "[]" "[]" "str ''Cara''" "[(str ''Eve'', eve_feb_27)]"]
    by simp
  also have "\<dots> = Inr [str ''Eve: 27.02.2023'']"
    by (simp add: get_upcoming_birthdays_spec window_feb_25 spec_eve)
  finally have g: "get_upcoming_birthdays feb_25_2023
        [(str ''Cara'', cara_feb_29), (str ''Eve'', eve_feb_27)]
      = Inr [str ''Eve: 27.02.2023'']"
    by simp
  show ?thesis using a b c window_feb_25 g by blast
qed

text \<open>
  Without that condition an error escapes: 9999 is no leap year, and on 9999-12-28
  \<^verbatim>\<open>get_upcoming_birthdays\<close> raises \<^verbatim>\<open>OverflowError\<close>, which nothing catches.
\<close>

theorem leap_day_overflow_counterexample:
  "\<not> is_leap (year dec_28_9999)
   \<and> birthday cara_feb_29 = Some (str ''29.02.2000'')
   \<and> get_upcoming_birthdays dec_28_9999 [(str ''Cara'', cara_feb_29)] = Inl OverflowError"
proof (intro conjI)
  show "\<not> is_leap (year dec_28_9999)"
    by (simp add: dec_28_9999_def is_leap_def)
next
  show "birthday cara_feb_29 = Some (str ''29.02.2000'')"
    by (simp add: cara_feb_29_def)
next
  show "get_upcoming_birthdays dec_28_9999 [(str ''Cara'', cara_feb_29)] = Inl OverflowError"
    by (simp add: get_upcoming_birthdays_def window_dec_28)
qed

subsection \<open>Case-insensitive uniqueness of the keys\<close>















lemma normalize_Anna:
  "normalize_name U (str ''Anna'') = str ''Anna''"
  "normalize_name U (str ''ANNA'') = str ''Anna''"
  "normalize_name U (str ''Bob'') = str ''Bob''"
proof -
  have n: "normalize_name U x = normalize_ascii x" if "is_ascii x" for x
    using that by (rule normalize_name_ascii)
  show "normalize_name U (str ''Anna'') = str ''Anna''"
    by (simp add: n is_ascii_def)
      (simp add: normalize_ascii_def py_split.simps py_isspace_cp_def in_ranges_def Let_def
        ascii_upper_def ascii_lower_def)
  show "normalize_name U (str ''ANNA'') = str ''Anna''"
    by (simp add: n is_ascii_def)
      (simp add: normalize_ascii_def py_split.simps py_isspace_cp_def in_ranges_def Let_def
        ascii_upper_def ascii_lower_def)
  show "normalize_name U (str ''Bob'') = str ''Bob''"
    by (simp add: n is_ascii_def)
      (simp add: normalize_ascii_def py_split.simps py_isspace_cp_def in_ranges_def Let_def
        ascii_upper_def ascii_lower_def)
qed

lemma lower_Anna:
  "py_lower U (str ''Anna'') = str ''anna''"
  "py_lower U (str ''ANNA'') = str ''anna''"
  "py_lower U (str ''anna'') = str ''anna''"
  "py_lower U (str ''Bob'') = str ''bob''"
  by (simp_all add: py_lower_ascii is_ascii_def ascii_lower_def)

lemmas isdigit_eval = py_isdigit_def py_isdigit_cp_def py_isdecimal_cp_def in_ranges_def
  other_digit_ranges_def decimal_ranges_def



lemma add_contact_Bob:
  "add_contact U [str ''Bob'', str ''5556667777''] anna_book
     = (Message (str ''Contact added.''),
        anna_book @ [(str ''Bob'', \<lparr>name = str ''Bob'', phones = [str ''5556667777''], birthday = None\<rparr>)])"
  unfolding add_contact_def add_contact_body_def
  by (simp add: Let_def normalize_Anna [simplified] lower_Anna [simplified] isdigit_eval
      name_exists_def new_Record_def add_phone_def find_phone_def Phone_def add_record_def
      anna_book_def anna_def)





end
